theory Spec2Isabelle
  imports Complex_Main "HOL-Library.Word"
begin

section \<open>Values, errors and outcomes\<close>

text \<open>
  Row identifiers, offsets and lengths are Go \<open>int64\<close> values. They are modelled as
  \<open>int\<close>; where the Go code computes on them, the two's complement wrap-around is
  written out with \<open>wrap64\<close>.
\<close>

type_synonym rowid = int

definition wrap64 :: "int \<Rightarrow> int" where
  "wrap64 x = (x + 2 ^ 63) mod 2 ^ 64 - 2 ^ 63"

text \<open>The engine's result codes are integers; \<open>SQLITE_BUSY\<close> is 5.\<close>

type_synonym result_code = int

definition ResultCodeBusy :: result_code where
  "ResultCodeBusy = 5"

text \<open>
  Go error values. \<open>ErrNotFound\<close> is the package's sentinel; \<open>ErrorsNew m\<close> is a
  value made by \<open>errors.New(m)\<close> (or by \<open>fmt.Errorf\<close> without \<open>%w\<close>) and
  \<open>Errorf m e\<close> one made by \<open>fmt.Errorf(m + "%w", e)\<close>; \<open>SqliteError rc\<close> is
  an error of the database engine carrying its result code.
\<close>

datatype error =
    ErrNotFound
  | ErrUnexpectedJournalMode string
  | SqliteError result_code
  | ErrorsNew string
  | Errorf string error

record valueKey =
  keyId :: rowid
  offset :: int

datatype panic_value =
    PanicString string
  | PanicError error
  | PanicKey valueKey
  | PanicUnwrap

text \<open>
  What a call does: it returns normally (\<open>Ok\<close>), returns a non-nil error (\<open>Err\<close>),
  or panics. Every function of the model also returns the state it leaves behind.
  \<open>andThen\<close> is the Go idiom \<open>if err != nil { return err }\<close>.
\<close>

datatype 'a outcome = Ok 'a | Err error | Panic panic_value

definition andThen :: "'a outcome \<times> 's \<Rightarrow> ('a \<Rightarrow> 's \<Rightarrow> 'b outcome \<times> 's) \<Rightarrow> 'b outcome \<times> 's" where
  "andThen r f =
     (case r of
        (Ok x, s) \<Rightarrow> f x s
      | (Err e, s) \<Rightarrow> (Err e, s)
      | (Panic p, s) \<Rightarrow> (Panic p, s))"

text \<open>
  \<open>sqlite.IsResultCode(err, code)\<close> of the adapter library: the error is an engine
  error with that result code. A nil error is \<open>None\<close>.
\<close>

fun IsResultCode :: "error option \<Rightarrow> result_code \<Rightarrow> bool" where
  "IsResultCode (Some (SqliteError rc)) code = (rc = code)"
| "IsResultCode _ code = False"

section \<open>The database engine\<close>

text \<open>
  The tables, with the columns the statements of the source read and write. The schema
  script and the trigger script are not among the source files; the tables are modelled
  without triggers (the \<open>NoTriggers\<close> configuration).
\<close>

record keys_row =
  key_id :: rowid
  key :: string
  length_col :: int
  last_used :: int
  access_count :: int

record blobs_row =
  blob_id :: rowid
  blob :: "8 word list"

record values_row =
  value_id :: rowid
  offset_col :: int
  val_blob_id :: rowid

text \<open>
  What the engine answers to the next call made on the connection: it fails with a
  result code, or it runs the statement; for a pragma statement \<open>Runs t\<close> carries the
  text the pragma returns (\<open>None\<close>: no row).
\<close>

datatype reply = Fails result_code | Runs "string option"

text \<open>
  The state behind a \<open>*sqlite.Conn\<close>: the four tables, the rowid of the last insert,
  the value \<open>cast(unixepoch('subsec')*1e3 as integer)\<close> evaluates to, the values the
  schema gives the columns of \<open>keys\<close> an insert does not name, and the engine's
  answers to the calls to come (an exhausted list: the engine runs the statement).
\<close>

record sqliteConn =
  tbl_keys :: "keys_row list"
  tbl_blobs :: "blobs_row list"
  tbl_values :: "values_row list"
  tbl_setting :: "(string \<times> int) list"
  last_insert_rowid :: rowid
  clock_ms :: int
  keys_defaults :: "int \<times> int"
  replies :: "reply list"

definition next_reply :: "sqliteConn \<Rightarrow> reply \<times> sqliteConn" where
  "next_reply s =
     (case replies s of
        [] \<Rightarrow> (Runs None, s)
      | r # rs \<Rightarrow> (r, s\<lparr>replies := rs\<rparr>))"

text \<open>The statements of the source, with their bound arguments.\<close>

datatype stmt =
    Pragma string
    \<comment> \<open>any \<open>pragma ...\<close> statement, by its text\<close>
  | Script string
    \<comment> \<open>\<open>sqlitex.ExecScript\<close> of one of the embedded scripts, by its name\<close>
  | Begin string
    \<comment> \<open>\<open>begin immediate\<close> (the transaction's mode)\<close>
  | Commit
  | Rollback
  | DeleteCapacity
    \<comment> \<open>\<open>delete from setting where name='capacity'\<close>\<close>
  | InsertCapacity int
    \<comment> \<open>\<open>insert into setting values ('capacity', ?)\<close>\<close>
  | SelectKey string
    \<comment> \<open>\<open>select key_id, length from keys where key=?\<close>\<close>
  | InsertKey string int
    \<comment> \<open>\<open>insert into keys (key, length) values (?, ?) returning key_id\<close>\<close>
  | InsertZeroblob int
    \<comment> \<open>\<open>insert into blobs (blob) values (zeroblob(?))\<close>\<close>
  | InsertValue rowid int rowid
    \<comment> \<open>\<open>insert into "values" (value_id, offset, blob_id) values (?, ?, ?)\<close>\<close>
  | UpdateAccessed rowid
    \<comment> \<open>\<open>update keys set last_used=cast(unixepoch('subsec')*1e3 as integer),
        access_count=access_count+1 where key_id=?\<close>\<close>
  | SelectValueBlobs rowid int
    \<comment> \<open>\<open>select offset, blob_id from "values" join blobs using (blob_id)
        where value_id=? and offset+length(blob) > ? order by offset\<close>\<close>

datatype column = ColInt int | ColText string

type_synonym row = "column list"

text \<open>\<open>stmt.ColumnInt64(i)\<close>: the engine gives 0 where there is no integer.\<close>

definition ColumnInt64 :: "row \<Rightarrow> nat \<Rightarrow> int" where
  "ColumnInt64 r i =
     (if i < length r then (case r ! i of ColInt n \<Rightarrow> n | ColText _ \<Rightarrow> 0) else 0)"

text \<open>
  The rowid the engine gives a row inserted without one: one more than the largest in
  the table, 1 in an empty table. (Where the largest is \<open>2^63 - 1\<close> the engine tries
  unused rowids at random instead; a table in that state is outside the model.)
\<close>

definition new_rowid :: "rowid list \<Rightarrow> rowid" where
  "new_rowid ids = (if ids = [] then 1 else fold max (tl ids) (hd ids) + 1)"

definition zeroblob :: "int \<Rightarrow> 8 word list" where
  "zeroblob n = replicate (nat n) 0"

text \<open>
  Modelled from the spec: the declaration of table \<open>setting\<close> is in the schema script,
  which is not among the source files. The spec has \<open>setting\<close> hold one row per name and
  the insert of the capacity act as an upsert: a row of the same name is replaced.
\<close>

definition insert_setting :: "string \<Rightarrow> int \<Rightarrow> (string \<times> int) list \<Rightarrow> (string \<times> int) list" where
  "insert_setting name v rows = filter (\<lambda>r. fst r \<noteq> name) rows @ [(name, v)]"

definition accessed_row :: "int \<Rightarrow> rowid \<Rightarrow> keys_row \<Rightarrow> keys_row" where
  "accessed_row now k r =
     (if key_id r = k then r\<lparr>last_used := now, access_count := access_count r + 1\<rparr> else r)"

definition joined_rows :: "sqliteConn \<Rightarrow> rowid \<Rightarrow> int \<Rightarrow> (int \<times> rowid) list" where
  "joined_rows s v start =
     sort_key fst
       (concat (map (\<lambda>vr. map (\<lambda>br. (offset_col vr, val_blob_id vr))
                         (filter (\<lambda>br. blob_id br = val_blob_id vr \<and>
                                        offset_col vr + int (length (blob br)) > start)
                                 (tbl_blobs s)))
                    (filter (\<lambda>vr. value_id vr = v) (tbl_values s))))"

text \<open>
  What a statement that runs does to the tables, and the rows it returns. Pragmas and
  scripts touch no row of the four tables.
\<close>

fun run_stmt :: "stmt \<Rightarrow> sqliteConn \<Rightarrow> row list \<times> sqliteConn" where
  "run_stmt (Pragma t) s = ([], s)"
| "run_stmt (Script n) s = ([], s)"
| "run_stmt (Begin m) s = ([], s)"
| "run_stmt Commit s = ([], s)"
| "run_stmt Rollback s = ([], s)"
| "run_stmt DeleteCapacity s =
     ([], s\<lparr>tbl_setting := filter (\<lambda>r. fst r \<noteq> ''capacity'') (tbl_setting s)\<rparr>)"
| "run_stmt (InsertCapacity cap) s =
     ([], s\<lparr>tbl_setting := insert_setting ''capacity'' cap (tbl_setting s)\<rparr>)"
| "run_stmt (SelectKey k) s =
     (map (\<lambda>r. [ColInt (key_id r), ColInt (length_col r)])
          (filter (\<lambda>r. key r = k) (tbl_keys s)), s)"
| "run_stmt (InsertKey k len) s =
     (let i = new_rowid (map key_id (tbl_keys s)) in
      ([[ColInt i]],
       s\<lparr>tbl_keys := tbl_keys s @
            [\<lparr>key_id = i, key = k, length_col = len,
              last_used = fst (keys_defaults s), access_count = snd (keys_defaults s)\<rparr>],
          last_insert_rowid := i\<rparr>))"
| "run_stmt (InsertZeroblob n) s =
     (let i = new_rowid (map blob_id (tbl_blobs s)) in
      ([], s\<lparr>tbl_blobs := tbl_blobs s @ [\<lparr>blob_id = i, blob = zeroblob n\<rparr>],
              last_insert_rowid := i\<rparr>))"
| "run_stmt (InsertValue v off b) s =
     ([], s\<lparr>tbl_values := tbl_values s @
                [\<lparr>value_id = v, offset_col = off, val_blob_id = b\<rparr>]\<rparr>)"
| "run_stmt (UpdateAccessed k) s =
     ([], s\<lparr>tbl_keys := map (accessed_row (clock_ms s) k) (tbl_keys s)\<rparr>)"
| "run_stmt (SelectValueBlobs v start) s =
     (map (\<lambda>(off, b). [ColInt off, ColInt b]) (joined_rows s v start), s)"

text \<open>
  The limits of the engine. A blob is at most \<open>SQLITE_MAX_LENGTH\<close> bytes long, and that
  limit is at most \<open>2^31 - 1\<close> in every build of the engine: \<open>zeroblob(n)\<close> with a
  larger \<open>n\<close> is refused with \<open>SQLITE_TOOBIG\<close> (18). A database file has at most
  4294967294 pages of at most 65536 bytes: an insert that would take the bytes stored in
  \<open>blobs\<close> beyond that is refused with \<open>SQLITE_FULL\<close> (13). (A connection can be given
  lower limits, and the disk can be smaller: those refusals are among the answers of
  \<open>replies\<close>.)
\<close>

definition SQLITE_MAX_LENGTH :: int where
  "SQLITE_MAX_LENGTH = 2147483647"

definition max_database_bytes :: int where
  "max_database_bytes = 4294967294 * 65536"

definition stored_bytes :: "sqliteConn \<Rightarrow> int" where
  "stored_bytes s = sum_list (map (\<lambda>r. int (length (blob r))) (tbl_blobs s))"

text \<open>
  Modelled from the spec: the declarations of \<open>keys\<close> and \<open>values\<close> are in the schema
  script, which is not among the source files. The spec has \<open>key\<close> unique in \<open>keys\<close>
  and \<open>values\<close> a mapping from \<open>(value_id, offset)\<close>: an insert of a second row for the
  same key, or for the same pair, is refused with \<open>SQLITE_CONSTRAINT\<close> (19).
\<close>

definition refuses :: "stmt \<Rightarrow> sqliteConn \<Rightarrow> result_code option" where
  "refuses q s =
     (case q of
        InsertKey k len \<Rightarrow>
          (if list_ex (\<lambda>r. key r = k) (tbl_keys s) then Some 19 else None)
      | InsertZeroblob n \<Rightarrow>
          (if n > SQLITE_MAX_LENGTH then Some 18
           else if stored_bytes s + n > max_database_bytes then Some 13
           else None)
      | InsertValue v off b \<Rightarrow>
          (if list_ex (\<lambda>r. value_id r = v \<and> offset_col r = off) (tbl_values s) then Some 19
           else None)
      | _ \<Rightarrow> None)"

text \<open>
  One call of the engine: it takes its next answer; a failing answer leaves the tables
  alone, a pragma returns the text of the answer, every other statement is refused for
  one of the reasons above or runs on the tables.
\<close>

definition engine_step :: "sqliteConn \<Rightarrow> stmt \<Rightarrow> (result_code + row list) \<times> sqliteConn" where
  "engine_step s q =
     (case next_reply s of
        (Fails rc, s') \<Rightarrow> (Inl rc, s')
      | (Runs t, s') \<Rightarrow>
          (case q of
             Pragma _ \<Rightarrow> (Inr (case t of None \<Rightarrow> [] | Some x \<Rightarrow> [[ColText x]]), s')
           | _ \<Rightarrow>
               (case refuses q s' of
                  Some rc \<Rightarrow> (Inl rc, s')
                | None \<Rightarrow> (case run_stmt q s' of (rows, s'') \<Rightarrow> (Inr rows, s'')))))"

text \<open>
  \<open>sqlitex.Exec\<close> with a result function: the result function is called on each row
  in turn and the first error (or panic) stops the statement.
\<close>

fun each_row :: "(row \<Rightarrow> 's \<Rightarrow> unit outcome \<times> 's) \<Rightarrow> row list \<Rightarrow> 's \<Rightarrow> unit outcome \<times> 's" where
  "each_row f [] s = (Ok (), s)"
| "each_row f (r # rs) s =
     (case f r s of
        (Ok _, s') \<Rightarrow> each_row f rs s'
      | (Err e, s') \<Rightarrow> (Err e, s')
      | (Panic p, s') \<Rightarrow> (Panic p, s'))"

text \<open>\<open>sqlitex.Exec\<close> (and \<open>ExecTransient\<close>, \<open>ExecScript\<close>) with a nil result function.\<close>

definition sqlitex_Exec :: "sqliteConn \<Rightarrow> stmt \<Rightarrow> unit outcome \<times> sqliteConn" where
  "sqlitex_Exec s q =
     (case engine_step s q of
        (Inl rc, s') \<Rightarrow> (Err (SqliteError rc), s')
      | (Inr rows, s') \<Rightarrow> (Ok (), s'))"

section \<open>The connection\<close>

text \<open>An open \<open>*sqlite.Blob\<close>: the row it is on, its size, and whether it is aborted.\<close>

record blob_handle =
  h_rowid :: rowid
  h_size :: int
  h_write :: bool
  h_aborted :: bool

text \<open>
  \<open>connStruct\<close>. The \<open>btree.Map\<close> of blob handles is the list of its entries in
  key order.
\<close>

record connStruct =
  sqliteConn :: sqliteConn
  blobs :: "(valueKey \<times> blob_handle) list"
  maxBlobSize :: int

definition sqliteQuery ::
  "connStruct \<Rightarrow> stmt \<Rightarrow> (row \<Rightarrow> connStruct \<times> 'a \<Rightarrow> unit outcome \<times> connStruct \<times> 'a) \<Rightarrow> 'a
     \<Rightarrow> unit outcome \<times> connStruct \<times> 'a" where
  "sqliteQuery c q result a =
     (case engine_step (sqliteConn c) q of
        (Inl rc, s') \<Rightarrow> (Err (SqliteError rc), c\<lparr>sqliteConn := s'\<rparr>, a)
      | (Inr rows, s') \<Rightarrow> each_row result rows (c\<lparr>sqliteConn := s'\<rparr>, a))"

definition sqliteExec :: "connStruct \<Rightarrow> stmt \<Rightarrow> unit outcome \<times> connStruct" where
  "sqliteExec c q =
     (case engine_step (sqliteConn c) q of
        (Inl rc, s') \<Rightarrow> (Err (SqliteError rc), c\<lparr>sqliteConn := s'\<rparr>)
      | (Inr rows, s') \<Rightarrow> (Ok (), c\<lparr>sqliteConn := s'\<rparr>))"


text \<open>
  \<open>sqliteQueryRow\<close>: the result function of the source counts the rows in \<open>ok\<close> and
  panics on a second one.
\<close>

definition sqliteQueryRow ::
  "connStruct \<Rightarrow> stmt \<Rightarrow> (row \<Rightarrow> connStruct \<times> 'a \<Rightarrow> unit outcome \<times> connStruct \<times> 'a) \<Rightarrow> 'a
     \<Rightarrow> bool outcome \<times> connStruct \<times> 'a" where
  "sqliteQueryRow c q result a =
     (case sqliteQuery c q
             (\<lambda>r (c', ok, a').
                if ok then (Panic (PanicString ''got more than one row''), c', ok, a')
                else (case result r (c', a') of (x, c'', a'') \<Rightarrow> (x, c'', True, a'')))
             (False, a) of
        (Ok _, c', ok, a') \<Rightarrow> (Ok ok, c', a')
      | (Err e, c', ok, a') \<Rightarrow> (Err e, c', a')
      | (Panic p, c', ok, a') \<Rightarrow> (Panic p, c', a'))"

definition sqliteQueryMustOneRow ::
  "connStruct \<Rightarrow> stmt \<Rightarrow> (row \<Rightarrow> connStruct \<times> 'a \<Rightarrow> unit outcome \<times> connStruct \<times> 'a) \<Rightarrow> 'a
     \<Rightarrow> unit outcome \<times> connStruct \<times> 'a" where
  "sqliteQueryMustOneRow c q result a =
     (case sqliteQuery c q
             (\<lambda>r (c', hadResult, a').
                if hadResult then (Panic (PanicString ''got more than one row''), c', hadResult, a')
                else (case result r (c', a') of (x, c'', a'') \<Rightarrow> (x, c'', True, a'')))
             (False, a) of
        (Ok _, c', hadResult, a') \<Rightarrow>
          (if \<not> hadResult then (Panic (PanicString ''got no results''), c', a')
           else (Ok (), c', a'))
      | (Err e, c', hadResult, a') \<Rightarrow> (Err e, c', a')
      | (Panic p, c', hadResult, a') \<Rightarrow> (Panic p, c', a'))"

subsection \<open>openKey and createKey\<close>

record keyCols =
  cols_id :: rowid
  cols_length :: int

definition openKey :: "connStruct \<Rightarrow> string \<Rightarrow> keyCols outcome \<times> connStruct" where
  "openKey c k =
     (case sqliteQueryRow c (SelectKey k)
             (\<lambda>r (c', ret). (Ok (), c', \<lparr>cols_id = ColumnInt64 r 0, cols_length = ColumnInt64 r 1\<rparr>))
             \<lparr>cols_id = 0, cols_length = 0\<rparr> of
        (Err e, c', ret) \<Rightarrow> (Err e, c')
      | (Panic p, c', ret) \<Rightarrow> (Panic p, c')
      | (Ok ok, c', ret) \<Rightarrow> (if \<not> ok then (Err ErrNotFound, c') else (Ok ret, c')))"

record CreateOpts =
  Length :: int

text \<open>
  The loop of \<open>createKey\<close>. A failing insert panics. The loop need not end (a
  \<open>maxBlobSize\<close> of 0 never advances \<open>off\<close>): not returning is the value \<open>None\<close>.
\<close>

partial_function (option) createKey_loop ::
  "rowid \<Rightarrow> int \<Rightarrow> int \<Rightarrow> connStruct \<Rightarrow> (unit outcome \<times> connStruct) option" where
  "createKey_loop kid len off c =
     (if off < len then
        (let blobSize = wrap64 (len - off);
             blobSize = (if blobSize > maxBlobSize c then maxBlobSize c else blobSize)
         in case sqliteExec c (InsertZeroblob blobSize) of
              (Err e, c1) \<Rightarrow> Some (Panic (PanicError e), c1)
            | (Panic p, c1) \<Rightarrow> Some (Panic p, c1)
            | (Ok _, c1) \<Rightarrow>
                (let blobId = last_insert_rowid (sqliteConn c1)
                 in case sqliteExec c1 (InsertValue kid off blobId) of
                      (Err e, c2) \<Rightarrow> Some (Panic (PanicError e), c2)
                    | (Panic p, c2) \<Rightarrow> Some (Panic p, c2)
                    | (Ok _, c2) \<Rightarrow>
                        createKey_loop kid len (wrap64 (off + maxBlobSize c2)) c2))
      else Some (Ok (), c))"

declare createKey_loop.simps [code]

definition createKey :: "connStruct \<Rightarrow> string \<Rightarrow> CreateOpts \<Rightarrow> (rowid outcome \<times> connStruct) option" where
  "createKey c k create =
     (case openKey c k of
        (Ok cols, c') \<Rightarrow> Some (Ok (cols_id cols), c')
      | (Panic p, c') \<Rightarrow> Some (Panic p, c')
      | (Err e, c') \<Rightarrow>
          (if e \<noteq> ErrNotFound then Some (Err e, c')
           else
             (case sqliteQueryMustOneRow c' (InsertKey k (Length create))
                     (\<lambda>r (c'', kid). (Ok (), c'', ColumnInt64 r 0)) 0 of
                (Err e', c1, kid) \<Rightarrow> Some (Err e', c1)
              | (Panic p, c1, kid) \<Rightarrow> Some (Panic p, c1)
              | (Ok _, c1, kid) \<Rightarrow>
                  (case createKey_loop kid (Length create) 0 c1 of
                     None \<Rightarrow> None
                   | Some (Ok _, c2) \<Rightarrow> Some (Ok kid, c2)
                   | Some (Err e', c2) \<Rightarrow> Some (Err e', c2)
                   | Some (Panic p, c2) \<Rightarrow> Some (Panic p, c2)))))"

subsection \<open>accessedKey\<close>

definition accessedKey :: "connStruct \<Rightarrow> rowid \<Rightarrow> bool \<Rightarrow> unit outcome \<times> connStruct" where
  "accessedKey c k ignoreBusy =
     (case sqliteExec c (UpdateAccessed k) of
        (Err e, c') \<Rightarrow>
          (if ignoreBusy \<and> IsResultCode (Some e) ResultCodeBusy then (Ok (), c')
           else (Err e, c'))
      | (r, c') \<Rightarrow> (r, c'))"

subsection \<open>The map of blob handles\<close>

text \<open>
  Modelled from the spec: the ordering of \<open>valueKey\<close> is declared outside the source
  files; the spec has the map ordered by \<open>(value_id, offset)\<close>.
\<close>

definition valueKey_less :: "valueKey \<Rightarrow> valueKey \<Rightarrow> bool" where
  "valueKey_less a b = (keyId a < keyId b \<or> (keyId a = keyId b \<and> offset a < offset b))"

type_synonym blob_map = "(valueKey \<times> blob_handle) list"

text \<open>
  The iterator of the \<open>btree\<close> library is a position in the entries; it is valid on
  an entry and invalid before the first and after the last.
\<close>

type_synonym iterator = int

definition SeekGE :: "blob_map \<Rightarrow> valueKey \<Rightarrow> iterator" where
  "SeekGE m k = int (length (takeWhile (\<lambda>e. valueKey_less (fst e) k) m))"

definition Valid :: "blob_map \<Rightarrow> iterator \<Rightarrow> bool" where
  "Valid m it = (0 \<le> it \<and> it < int (length m))"

definition Prev :: "iterator \<Rightarrow> iterator" where
  "Prev it = it - 1"

definition Next :: "iterator \<Rightarrow> iterator" where
  "Next it = it + 1"

definition Last :: "blob_map \<Rightarrow> iterator" where
  "Last m = int (length m) - 1"

definition Cur :: "blob_map \<Rightarrow> iterator \<Rightarrow> valueKey" where
  "Cur m it = fst (m ! nat it)"

definition Value :: "blob_map \<Rightarrow> iterator \<Rightarrow> blob_handle" where
  "Value m it = snd (m ! nat it)"

text \<open>\<open>Upsert\<close> returns the new map and whether an entry was replaced.\<close>

fun Upsert :: "blob_map \<Rightarrow> valueKey \<Rightarrow> blob_handle \<Rightarrow> blob_map \<times> bool" where
  "Upsert [] k v = ([(k, v)], False)"
| "Upsert ((k', v') # m) k v =
     (if k' = k then ((k, v) # m, True)
      else if valueKey_less k k' then ((k, v) # (k', v') # m, False)
      else (case Upsert m k v of (m', replaced) \<Rightarrow> ((k', v') # m', replaced)))"

text \<open>
  Modelled from the spec: \<open>openSqliteBlob\<close> is outside the source files; it opens a
  handle on the row of \<open>blobs\<close> with the given rowid, in write mode as asked. The
  engine fails with \<open>SQLITE_ERROR\<close> (1) where there is no such row.
\<close>

definition find_blob :: "sqliteConn \<Rightarrow> rowid \<Rightarrow> blobs_row option" where
  "find_blob s b = find (\<lambda>r. blob_id r = b) (tbl_blobs s)"

definition openSqliteBlob :: "sqliteConn \<Rightarrow> rowid \<Rightarrow> bool \<Rightarrow> blob_handle outcome \<times> sqliteConn" where
  "openSqliteBlob s blobId write =
     (case next_reply s of
        (Fails rc, s') \<Rightarrow> (Err (SqliteError rc), s')
      | (Runs t, s') \<Rightarrow>
          (case find_blob s' blobId of
             None \<Rightarrow> (Err (SqliteError 1), s')
           | Some r \<Rightarrow>
               (Ok \<lparr>h_rowid = blobId, h_size = int (length (blob r)),
                    h_write = write, h_aborted = False\<rparr>, s')))"

definition openBlob :: "connStruct \<Rightarrow> rowid \<Rightarrow> bool \<Rightarrow> blob_handle outcome \<times> connStruct" where
  "openBlob c blobId write =
     (case openSqliteBlob (sqliteConn c) blobId write of
        (r, s') \<Rightarrow> (r, c\<lparr>sqliteConn := s'\<rparr>))"

subsection \<open>iterBlobs\<close>

text \<open>
  The callback \<open>iter\<close> is given the offset and the handle; it returns \<open>more\<close> and an
  error (\<open>None\<close>: nil), and keeps a state of its own.
\<close>

type_synonym 'u iter_fn = "int \<Rightarrow> blob_handle \<Rightarrow> 'u \<Rightarrow> (bool \<times> error option) \<times> 'u"

text \<open>
  The first loop, over the handles already in the map. It ends either by returning from
  \<open>iterBlobs\<close> (\<open>Inl\<close>, with the error or nil) or by falling through to the query
  (\<open>Inr\<close>, with \<open>more\<close> and the \<open>startOffset\<close> reached).
\<close>

function iterBlobs_cached ::
  "'u iter_fn \<Rightarrow> rowid \<Rightarrow> blob_map \<Rightarrow> iterator \<Rightarrow> bool \<Rightarrow> int \<Rightarrow> 'u
     \<Rightarrow> (error option + bool \<times> int) \<times> 'u" where
  "iterBlobs_cached iter valueId m it more0 startOffset u =
     (if Valid m it \<and> keyId (Cur m it) = valueId then
        (let blobEnd = wrap64 (offset (Cur m it) + h_size (Value m it))
         in if blobEnd > startOffset then
              (case iter (offset (Cur m it)) (Value m it) u of
                 ((more', err), u') \<Rightarrow>
                   (if err \<noteq> None \<or> \<not> more' then (Inl err, u')
                    else iterBlobs_cached iter valueId m (Next it) more' blobEnd u'))
            else iterBlobs_cached iter valueId m (Next it) more0 startOffset u)
      else (Inr (more0, startOffset), u))"
  by pat_completeness auto
termination
  by (relation "measure (\<lambda>(iter, valueId, m, it, more0, startOffset, u). nat (int (length m) - it))")
     (auto simp: Valid_def Next_def)

declare iterBlobs_cached.simps [simp del]

text \<open>The result function of the query, called on each row.\<close>

definition iterBlobs_row ::
  "'u iter_fn \<Rightarrow> rowid \<Rightarrow> bool \<Rightarrow> row \<Rightarrow> connStruct \<times> bool \<times> 'u
     \<Rightarrow> unit outcome \<times> connStruct \<times> bool \<times> 'u" where
  "iterBlobs_row iter valueId write r st =
     (case st of (c, more0, u) \<Rightarrow>
        if \<not> more0 then (Ok (), c, more0, u)
        else
          (let off = ColumnInt64 r 0;
               blobId = ColumnInt64 r 1
           in case openBlob c blobId write of
                (Err e, c1) \<Rightarrow> (Err e, c1, more0, u)
              | (Panic p, c1) \<Rightarrow> (Panic p, c1, more0, u)
              | (Ok b, c1) \<Rightarrow>
                  (let k = \<lparr>keyId = valueId, offset = off\<rparr>
                   in case Upsert (blobs c1) k b of
                        (m', replaced) \<Rightarrow>
                          (if replaced then (Panic (PanicKey k), c1\<lparr>blobs := m'\<rparr>, more0, u)
                           else
                             (case iter off b u of
                                ((more', err), u') \<Rightarrow>
                                  ((case err of None \<Rightarrow> Ok () | Some e \<Rightarrow> Err e),
                                   c1\<lparr>blobs := m'\<rparr>, more', u'))))))"

definition iterBlobs ::
  "connStruct \<Rightarrow> rowid \<Rightarrow> 'u iter_fn \<Rightarrow> bool \<Rightarrow> int \<Rightarrow> 'u \<Rightarrow> unit outcome \<times> connStruct \<times> 'u" where
  "iterBlobs c valueId iter write startOffset u =
     (let it = SeekGE (blobs c) \<lparr>keyId = valueId, offset = wrap64 (startOffset + 1)\<rparr>;
          it = (if Valid (blobs c) it then Prev it else Last (blobs c))
      in case iterBlobs_cached iter valueId (blobs c) it True startOffset u of
           (Inl err, u') \<Rightarrow> ((case err of None \<Rightarrow> Ok () | Some e \<Rightarrow> Err e), c, u')
         | (Inr (more0, startOffset'), u') \<Rightarrow>
             (case sqliteQuery c (SelectValueBlobs valueId startOffset')
                     (iterBlobs_row iter valueId write) (more0, u') of
                (r, c', more', u'') \<Rightarrow> (r, c', u'')))"

section \<open>Initialisation\<close>

text \<open>Decimal text of an integer, as \<open>fmt.Sprint\<close> prints it.\<close>

function show_nat :: "nat \<Rightarrow> string" where
  "show_nat n =
     (if n < 10 then [''0123456789'' ! n]
      else show_nat (n div 10) @ [''0123456789'' ! (n mod 10)])"
  by pat_completeness auto
termination
  by (relation "measure (\<lambda>n. n)") auto

definition show_int :: "int \<Rightarrow> string" where
  "show_int i = (if i < 0 then CHR ''-'' # show_nat (nat (- i)) else show_nat (nat i))"

text \<open>
  Modelled from the spec: \<open>execTransientReturningText\<close>, \<open>setAndMaybeVerifyPragma\<close>,
  \<open>setAndVerifyPragma\<close> and \<open>setSynchronous\<close> are outside the source files. The
  first runs a statement and returns the text of its first row, if any. Setting a
  pragma runs \<open>pragma name=value\<close>; verifying reads the pragma back and compares the
  text with the value wanted. \<open>synchronous\<close> is set to the configured mode.
\<close>

definition execTransientReturningText :: "sqliteConn \<Rightarrow> string \<Rightarrow> string option outcome \<times> sqliteConn" where
  "execTransientReturningText s q =
     (case engine_step s (Pragma q) of
        (Inl rc, s') \<Rightarrow> (Err (SqliteError rc), s')
      | (Inr [], s') \<Rightarrow> (Ok None, s')
      | (Inr (r # rs), s') \<Rightarrow>
          (case r of
             ColText x # _ \<Rightarrow> (Ok (Some x), s')
           | ColInt i # _ \<Rightarrow> (Ok (Some (show_int i)), s')
           | [] \<Rightarrow> (Ok None, s')))"

definition setAndMaybeVerifyPragma ::
  "sqliteConn \<Rightarrow> string \<Rightarrow> string \<Rightarrow> string option \<Rightarrow> unit outcome \<times> sqliteConn" where
  "setAndMaybeVerifyPragma s name v verify =
     andThen (sqlitex_Exec s (Pragma (''pragma '' @ name @ ''='' @ v)))
       (\<lambda>_ s1.
          case verify of
            None \<Rightarrow> (Ok (), s1)
          | Some want \<Rightarrow>
              andThen (execTransientReturningText s1 (''pragma '' @ name))
                (\<lambda>actual s2.
                   case actual of
                     None \<Rightarrow> (Panic PanicUnwrap, s2)
                   | Some a \<Rightarrow>
                       (if a \<noteq> want
                        then (Err (ErrorsNew (''pragma '' @ name @ '' is '' @ a @ '' not '' @ want)), s2)
                        else (Ok (), s2))))"

definition setAndVerifyPragma :: "sqliteConn \<Rightarrow> string \<Rightarrow> string \<Rightarrow> unit outcome \<times> sqliteConn" where
  "setAndVerifyPragma s name v = setAndMaybeVerifyPragma s name v (Some v)"

definition setSynchronous :: "sqliteConn \<Rightarrow> string \<Rightarrow> unit outcome \<times> sqliteConn" where
  "setSynchronous s mode = sqlitex_Exec s (Pragma (''pragma synchronous='' @ mode))"

text \<open>
  Modelled from the spec: the declarations of \<open>InitConnOpts\<close> and \<open>InitDbOpts\<close> are
  outside the source files; these are the fields \<open>initConn\<close> and \<open>initDatabase\<close>
  read. An optional value is an \<open>option\<close>.
\<close>

record InitConnOpts =
  SetSynchronous :: string
  SetJournalMode :: string
  SetLockingMode :: string
  MmapSizeOk :: bool
  MmapSize :: int
  CacheSize :: "int option"

record InitDbOpts =
  SetAutoVacuum :: "string option"
  RequireAutoVacuum :: "string option"
  DontInitSchema :: bool
  PageSize :: int
  NoTriggers :: bool
  Capacity :: int

subsection \<open>initConn\<close>

definition setPageSize :: "sqliteConn \<Rightarrow> int \<Rightarrow> unit outcome \<times> sqliteConn" where
  "setPageSize s pageSize =
     (if pageSize = 0 then (Ok (), s)
      else setAndVerifyPragma s ''page_size'' (show_int pageSize))"

text \<open>The steps of \<open>initConn\<close> after the journal mode: locking mode, mmap size, cache size.\<close>

definition initConn_after_journal_mode :: "sqliteConn \<Rightarrow> InitConnOpts \<Rightarrow> unit outcome \<times> sqliteConn" where
  "initConn_after_journal_mode s opts =
     andThen (if SetLockingMode opts \<noteq> []
              then setAndVerifyPragma s ''locking_mode'' (SetLockingMode opts)
              else (Ok (), s))
       (\<lambda>_ s1.
          let opts = (if \<not> MmapSizeOk opts then opts\<lparr>MmapSize := -1\<rparr> else opts)
          in andThen (if MmapSize opts \<ge> 0
                      then setAndVerifyPragma s1 ''mmap_size'' (show_int (MmapSize opts))
                      else (Ok (), s1))
               (\<lambda>_ s2.
                  case CacheSize opts of
                    Some v \<Rightarrow> setAndVerifyPragma s2 ''cache_size'' (show_int v)
                  | None \<Rightarrow> (Ok (), s2)))"

definition initConn :: "sqliteConn \<Rightarrow> InitConnOpts \<Rightarrow> int \<Rightarrow> unit outcome \<times> sqliteConn" where
  "initConn s opts pageSize =
     andThen (setSynchronous s (SetSynchronous opts))
       (\<lambda>_ s1.
          andThen (sqlitex_Exec s1 (Pragma ''pragma recursive_triggers=on''))
            (\<lambda>_ s2.
               case setPageSize s2 pageSize of
                 (Err e, s3) \<Rightarrow> (Err (Errorf ''setting page size: '' e), s3)
               | (Panic p, s3) \<Rightarrow> (Panic p, s3)
               | (Ok _, s3) \<Rightarrow>
                   (if SetJournalMode opts \<noteq> [] then
                      andThen (execTransientReturningText s3
                                 (''pragma journal_mode='' @ SetJournalMode opts))
                        (\<lambda>journalMode s4.
                           case journalMode of
                             None \<Rightarrow> (Panic PanicUnwrap, s4)
                           | Some actual \<Rightarrow>
                               (if actual \<noteq> SetJournalMode opts
                                then (Err (ErrUnexpectedJournalMode actual), s4)
                                else initConn_after_journal_mode s4 opts))
                    else initConn_after_journal_mode s3 opts)))"

subsection \<open>InitSchema and initDatabase\<close>

text \<open>
  \<open>sqlitex.WithTransactionRollbackOnError\<close>: the body runs between \<open>begin\<close> and
  \<open>commit\<close>; when it returns an error the transaction is rolled back, which gives the
  tables back as they were at \<open>begin\<close>, and the error is returned.
\<close>

definition restore_tables :: "sqliteConn \<Rightarrow> sqliteConn \<Rightarrow> sqliteConn" where
  "restore_tables saved s =
     s\<lparr>tbl_keys := tbl_keys saved, tbl_blobs := tbl_blobs saved,
       tbl_values := tbl_values saved, tbl_setting := tbl_setting saved\<rparr>"

definition WithTransactionRollbackOnError ::
  "sqliteConn \<Rightarrow> string \<Rightarrow> (sqliteConn \<Rightarrow> unit outcome \<times> sqliteConn) \<Rightarrow> unit outcome \<times> sqliteConn" where
  "WithTransactionRollbackOnError s level f =
     andThen (sqlitex_Exec s (Begin level))
       (\<lambda>_ s1.
          case f s1 of
            (Ok _, s2) \<Rightarrow> sqlitex_Exec s2 Commit
          | (Err e, s2) \<Rightarrow>
              (case sqlitex_Exec s2 Rollback of (_, s3) \<Rightarrow> (Err e, restore_tables s1 s3))
          | (Panic p, s2) \<Rightarrow> (Panic p, s2))"

definition InitSchema :: "sqliteConn \<Rightarrow> int \<Rightarrow> bool \<Rightarrow> unit outcome \<times> sqliteConn" where
  "InitSchema s pageSize triggers =
     (case setPageSize s pageSize of
        (Err e, s1) \<Rightarrow> (Err (Errorf ''setting page size: '' e), s1)
      | (Panic p, s1) \<Rightarrow> (Panic p, s1)
      | (Ok _, s1) \<Rightarrow>
          WithTransactionRollbackOnError s1 ''immediate''
            (\<lambda>s2. andThen (sqlitex_Exec s2 (Script ''init.sql''))
                     (\<lambda>_ s3.
                        if triggers then
                          (case sqlitex_Exec s3 (Script ''init-triggers.sql'') of
                             (Err e, s4) \<Rightarrow> (Err (Errorf ''initing triggers: '' e), s4)
                           | r \<Rightarrow> r)
                        else (Ok (), s3))))"

definition unlimitCapacity :: "sqliteConn \<Rightarrow> unit outcome \<times> sqliteConn" where
  "unlimitCapacity s = sqlitex_Exec s DeleteCapacity"

definition setCapacity :: "sqliteConn \<Rightarrow> int \<Rightarrow> unit outcome \<times> sqliteConn" where
  "setCapacity s cap = sqlitex_Exec s (InsertCapacity cap)"

text \<open>
  The verb \<open>%q\<close> of \<open>fmt\<close>: the text between double quotes (the escapes it writes for
  a quote, a backslash or an unprintable character inside the text are not modelled).
\<close>

definition quoted :: "string \<Rightarrow> string" where
  "quoted t = CHR 0x22 # t @ [CHR 0x22]"

definition initDatabase :: "sqliteConn \<Rightarrow> InitDbOpts \<Rightarrow> unit outcome \<times> sqliteConn" where
  "initDatabase s opts =
     andThen
       (case SetAutoVacuum opts of
          Some v \<Rightarrow> setAndMaybeVerifyPragma s ''auto_vacuum'' v (RequireAutoVacuum opts)
        | None \<Rightarrow>
            (case RequireAutoVacuum opts of
               Some want \<Rightarrow>
                 andThen (execTransientReturningText s ''pragma auto_vacuum'')
                   (\<lambda>autoVacuumValue s1.
                      case autoVacuumValue of
                        None \<Rightarrow> (Panic PanicUnwrap, s1)
                      | Some a \<Rightarrow>
                          (if a \<noteq> want
                           then (Err (ErrorsNew (''auto_vacuum is '' @ quoted a @ '' not '' @ quoted want)), s1)
                           else (Ok (), s1)))
             | None \<Rightarrow> (Ok (), s)))
       (\<lambda>_ s1.
          andThen
            (if \<not> DontInitSchema opts then
               (case InitSchema s1 (PageSize opts) (\<not> NoTriggers opts) of
                  (Err e, s2) \<Rightarrow> (Err (Errorf ''initing schema: '' e), s2)
                | r \<Rightarrow> r)
             else (Ok (), s1))
            (\<lambda>_ s2.
               if Capacity opts < 0 then unlimitCapacity s2
               else if Capacity opts > 0 then setCapacity s2 (Capacity opts)
               else (Ok (), s2)))"

section \<open>Pinned blobs\<close>

text \<open>
  Modelled from the spec: \<open>rowidForBlob\<close> and the declaration of \<open>Cache\<close> are outside
  the source files. \<open>rowidForBlob\<close> looks up the rowid and the length of the key: it
  returns them with \<open>ok\<close> set, \<open>ok\<close> unset where there is no row for the key, or
  the error of the engine. Of \<open>Cache\<close>, \<open>Reopen\<close> reads the connection (the mutex
  is not modelled).
\<close>

definition rowidForBlob :: "connStruct \<Rightarrow> string \<Rightarrow> (rowid \<times> int \<times> bool) outcome \<times> connStruct" where
  "rowidForBlob c name =
     (case sqliteQueryRow c (SelectKey name)
             (\<lambda>r (c', ret). (Ok (), c', (ColumnInt64 r 0, ColumnInt64 r 1)))
             (0, 0) of
        (Err e, c', ret) \<Rightarrow> (Err e, c')
      | (Panic p, c', ret) \<Rightarrow> (Panic p, c')
      | (Ok ok, c', (rowid, len)) \<Rightarrow> (Ok (rowid, len, ok), c'))"

record Cache =
  conn :: connStruct

record PinnedBlob =
  pb_blob :: blob_handle
  pb_c :: Cache

text \<open>
  \<open>Blob.Reopen\<close> of the engine's library moves the handle to another row of the same
  table; when it fails the handle is aborted. On an aborted handle it answers
  \<open>SQLITE_ABORT\<close> (4) at once, and the handle stays aborted.
\<close>

definition Blob_Reopen :: "blob_handle \<Rightarrow> sqliteConn \<Rightarrow> rowid \<Rightarrow> unit outcome \<times> blob_handle \<times> sqliteConn" where
  "Blob_Reopen b s rowid =
     (if h_aborted b then (Err (SqliteError 4), b, s)
      else
        (case next_reply s of
           (Fails rc, s') \<Rightarrow> (Err (SqliteError rc), b\<lparr>h_aborted := True\<rparr>, s')
         | (Runs t, s') \<Rightarrow>
             (case find_blob s' rowid of
                None \<Rightarrow> (Err (SqliteError 1), b\<lparr>h_aborted := True\<rparr>, s')
              | Some r \<Rightarrow>
                  (Ok (), b\<lparr>h_rowid := rowid, h_size := int (length (blob r))\<rparr>, s'))))"

definition Reopen :: "PinnedBlob \<Rightarrow> string \<Rightarrow> unit outcome \<times> PinnedBlob" where
  "Reopen pb name =
     (case rowidForBlob (conn (pb_c pb)) name of
        (Err e, c') \<Rightarrow> (Err e, pb\<lparr>pb_c := (pb_c pb)\<lparr>conn := c'\<rparr>\<rparr>)
      | (Panic p, c') \<Rightarrow> (Panic p, pb\<lparr>pb_c := (pb_c pb)\<lparr>conn := c'\<rparr>\<rparr>)
      | (Ok (rowid, len, ok), c') \<Rightarrow>
          (if \<not> ok
           then (Err (ErrorsNew ''rowid for name not found''), pb\<lparr>pb_c := (pb_c pb)\<lparr>conn := c'\<rparr>\<rparr>)
           else
             (case Blob_Reopen (pb_blob pb) (sqliteConn c') rowid of
                (r, b', s') \<Rightarrow>
                  (r, pb\<lparr>pb_blob := b', pb_c := (pb_c pb)\<lparr>conn := c'\<lparr>sqliteConn := s'\<rparr>\<rparr>\<rparr>))))"

section \<open>iterBlobs in the words of the specification\<close>

text \<open>
  The iteration as the specification words it, in three steps, to be compared with
  \<open>iterBlobs\<close>. The definitions of this section follow the words of the specification,
  not the source.

  Step 1: seek to the first key strictly greater than \<open>(value_id, startOffset)\<close> and
  step back one entry; where no key is greater, go to the last entry.
  \<open>first_greater m k\<close> is the position of the first key of the map strictly greater
  than \<open>k\<close> (the length of the map where there is none) and \<open>spec_start m k\<close> the
  position the iteration starts from (\<open>-1\<close>: before the first entry, not valid).
\<close>

definition first_greater :: "blob_map \<Rightarrow> valueKey \<Rightarrow> nat" where
  "first_greater m k = length (takeWhile (\<lambda>e. \<not> valueKey_less k (fst e)) m)"

definition spec_start :: "blob_map \<Rightarrow> valueKey \<Rightarrow> int" where
  "spec_start m k =
     (if first_greater m k < length m then int (first_greater m k) - 1
      else int (length m) - 1)"

text \<open>
  Step 2, on the entries from the starting position on: while the entry is of the same
  \<open>value_id\<close>, compute \<open>blobEnd = offset + size\<close> (in the integers); where
  \<open>blobEnd > startOffset\<close> invoke the callback, stop and return if it returns an error
  or \<open>more = false\<close> (\<open>Inl\<close>, with the error or nil), and otherwise set
  \<open>startOffset = blobEnd\<close>; advance. \<open>Inr\<close>: the entries are exhausted, with the
  \<open>startOffset\<close> reached.
\<close>

fun spec_cached ::
  "'u iter_fn \<Rightarrow> rowid \<Rightarrow> blob_map \<Rightarrow> int \<Rightarrow> 'u \<Rightarrow> (error option + int) \<times> 'u" where
  "spec_cached iter v [] startOffset u = (Inr startOffset, u)"
| "spec_cached iter v (e # es) startOffset u =
     (if keyId (fst e) \<noteq> v then (Inr startOffset, u)
      else
        (let blobEnd = offset (fst e) + h_size (snd e)
         in if blobEnd > startOffset then
              (case iter (offset (fst e)) (snd e) u of
                 ((more', err), u') \<Rightarrow>
                   (if more' \<and> err = None then spec_cached iter v es blobEnd u'
                    else (Inl err, u')))
            else spec_cached iter v es startOffset u))"

text \<open>
  Step 3, on the rows \<open>(offset, blob_id)\<close> of the query in their order: open a handle
  on the blob, in write mode as asked; upsert it into the map, which is a fault where
  it replaces an entry; then invoke the callback on the new handle. An error, or a
  callback that returns \<open>more = false\<close>, ends the iteration: no further handle is
  opened.
\<close>

fun spec_rows ::
  "'u iter_fn \<Rightarrow> rowid \<Rightarrow> bool \<Rightarrow> (int \<times> rowid) list \<Rightarrow> connStruct \<Rightarrow> 'u
     \<Rightarrow> unit outcome \<times> connStruct \<times> 'u" where
  "spec_rows iter v w [] c u = (Ok (), c, u)"
| "spec_rows iter v w (r # rows) c u =
     (case openBlob c (snd r) w of
        (Err e, c1) \<Rightarrow> (Err e, c1, u)
      | (Panic p, c1) \<Rightarrow> (Panic p, c1, u)
      | (Ok h, c1) \<Rightarrow>
          (case Upsert (blobs c1) \<lparr>keyId = v, offset = fst r\<rparr> h of
             (m', replaced) \<Rightarrow>
               (if replaced
                then (Panic (PanicKey \<lparr>keyId = v, offset = fst r\<rparr>), c1\<lparr>blobs := m'\<rparr>, u)
                else
                  (case iter (fst r) h u of
                     ((more', err), u') \<Rightarrow>
                       (case err of
                          Some e \<Rightarrow> (Err e, c1\<lparr>blobs := m'\<rparr>, u')
                        | None \<Rightarrow>
                            (if more' then spec_rows iter v w rows (c1\<lparr>blobs := m'\<rparr>) u'
                             else (Ok (), c1\<lparr>blobs := m'\<rparr>, u')))))))"

text \<open>
  The three steps together. The query is the engine's: it fails with the engine's
  error, or gives the rows of \<open>values\<close> joined with \<open>blobs\<close> of the \<open>value_id\<close> with
  \<open>offset + length(blob) > startOffset\<close>, ordered by offset.
\<close>

definition iterBlobs_spec ::
  "connStruct \<Rightarrow> rowid \<Rightarrow> 'u iter_fn \<Rightarrow> bool \<Rightarrow> int \<Rightarrow> 'u \<Rightarrow> unit outcome \<times> connStruct \<times> 'u" where
  "iterBlobs_spec c v iter w startOffset u =
     (let start = spec_start (blobs c) \<lparr>keyId = v, offset = startOffset\<rparr>
      in case (if start < 0 then (Inr startOffset, u)
               else spec_cached iter v (drop (nat start) (blobs c)) startOffset u) of
           (Inl err, u') \<Rightarrow> ((case err of None \<Rightarrow> Ok () | Some e \<Rightarrow> Err e), c, u')
         | (Inr startOffset', u') \<Rightarrow>
             (case next_reply (sqliteConn c) of
                (Fails rc, s') \<Rightarrow> (Err (SqliteError rc), c\<lparr>sqliteConn := s'\<rparr>, u')
              | (Runs t, s') \<Rightarrow>
                  spec_rows iter v w (joined_rows s' v startOffset') (c\<lparr>sqliteConn := s'\<rparr>) u'))"

text \<open>
  \<open>int64 x\<close>: \<open>x\<close> is a value of Go's \<open>int64\<close>; \<open>extents_int64 m\<close>: the offset and
  the end (offset plus size) of every handle of the map are. \<open>fell_through\<close>,
  \<open>without_more\<close> and \<open>encode_row\<close> relate the results of the two sides: the variable
  \<open>more\<close> of the source is true where its first loop falls through to the query, and
  a row of the query is the list of its two columns.
\<close>

definition int64 :: "int \<Rightarrow> bool" where
  "int64 x = (- (2 ^ 63) \<le> x \<and> x < 2 ^ 63)"

definition extents_int64 :: "blob_map \<Rightarrow> bool" where
  "extents_int64 m =
     list_all (\<lambda>e. int64 (offset (fst e)) \<and> int64 (offset (fst e) + h_size (snd e))) m"

definition fell_through :: "(error option + int) \<times> 'u \<Rightarrow> (error option + bool \<times> int) \<times> 'u" where
  "fell_through r = (case r of (Inl err, u) \<Rightarrow> (Inl err, u) | (Inr s, u) \<Rightarrow> (Inr (True, s), u))"

definition encode_row :: "int \<times> rowid \<Rightarrow> row" where
  "encode_row r = [ColInt (fst r), ColInt (snd r)]"

definition without_more :: "'a \<times> 'c \<times> bool \<times> 'u \<Rightarrow> 'a \<times> 'c \<times> 'u" where
  "without_more r = (case r of (x, c, m, u) \<Rightarrow> (x, c, u))"

section \<open>Vocabulary of the statements\<close>

text \<open>
  \<open>engine_runs s\<close>: the engine runs the next call made on \<open>s\<close> (its next answer is not
  a failure); \<open>runs_next n s\<close>: it runs the next \<open>n\<close> calls; \<open>after_reply s\<close>: the
  connection once the engine has given its next answer.
\<close>

definition is_Runs :: "reply \<Rightarrow> bool" where
  "is_Runs r = (case r of Fails rc \<Rightarrow> False | Runs t \<Rightarrow> True)"

definition runs_next :: "nat \<Rightarrow> sqliteConn \<Rightarrow> bool" where
  "runs_next n s = list_all is_Runs (take n (replies s))"

definition engine_runs :: "sqliteConn \<Rightarrow> bool" where
  "engine_runs s = runs_next 1 s"

definition after_reply :: "sqliteConn \<Rightarrow> sqliteConn" where
  "after_reply s = s\<lparr>replies := tl (replies s)\<rparr>"

text \<open>States for the examples: an empty database, and one holding the key \<open>a\<close>.\<close>

definition sqlite0 :: sqliteConn where
  "sqlite0 =
     \<lparr>tbl_keys = [], tbl_blobs = [], tbl_values = [], tbl_setting = [],
      last_insert_rowid = 0, clock_ms = 1700000000000, keys_defaults = (0, 0), replies = []\<rparr>"

definition sqlite1 :: sqliteConn where
  "sqlite1 =
     sqlite0\<lparr>tbl_keys := [\<lparr>key_id = 1, key = ''a'', length_col = 3, last_used = 10, access_count = 0\<rparr>],
             tbl_blobs := [\<lparr>blob_id = 1, blob = [0, 0, 0]\<rparr>],
             tbl_values := [\<lparr>value_id = 1, offset_col = 0, val_blob_id = 1\<rparr>],
             last_insert_rowid := 1\<rparr>"

definition conn0 :: connStruct where
  "conn0 = \<lparr>sqliteConn = sqlite0, blobs = [], maxBlobSize = 16\<rparr>"

definition conn1 :: connStruct where
  "conn1 = \<lparr>sqliteConn = sqlite1, blobs = [], maxBlobSize = 16\<rparr>"

text \<open>The statements that leave the table \<open>setting\<close> alone.\<close>

definition keeps_setting :: "stmt \<Rightarrow> bool" where
  "keeps_setting q = (case q of DeleteCapacity \<Rightarrow> False | InsertCapacity c \<Rightarrow> False | _ \<Rightarrow> True)"

text \<open>Options and a database for the examples of \<open>initDatabase\<close>.\<close>

definition opts_cap :: "int \<Rightarrow> InitDbOpts" where
  "opts_cap cap =
     \<lparr>SetAutoVacuum = Some ''incremental'', RequireAutoVacuum = Some ''1'', DontInitSchema = False,
      PageSize = 4096, NoTriggers = False, Capacity = cap\<rparr>"

definition sqlite_init :: sqliteConn where
  "sqlite_init =
     sqlite0\<lparr>tbl_setting := [(''capacity'', 5), (''other'', 1)],
             replies := [Runs None, Runs (Some ''1''), Runs None, Runs (Some ''4096'')]\<rparr>"

text \<open>
  \<open>keys_named k c\<close>: the rows of \<open>keys\<close> for the key \<open>k\<close>; \<open>replied c\<close>: the
  connection once the engine has given its next answer; \<open>err_of\<close>: the error a call
  returns (\<open>None\<close>: nil).
\<close>

definition keys_named :: "string \<Rightarrow> connStruct \<Rightarrow> keys_row list" where
  "keys_named k c = filter (\<lambda>r. key r = k) (tbl_keys (sqliteConn c))"

definition replied :: "connStruct \<Rightarrow> connStruct" where
  "replied c = c\<lparr>sqliteConn := after_reply (sqliteConn c)\<rparr>"

fun err_of :: "'a outcome \<Rightarrow> error option" where
  "err_of (Err e) = Some e"
| "err_of _ = None"

text \<open>Pinned blobs for the examples, on the database holding the key \<open>a\<close>.\<close>

definition pinned0 :: PinnedBlob where
  "pinned0 =
     \<lparr>pb_blob = \<lparr>h_rowid = 1, h_size = 3, h_write = False, h_aborted = False\<rparr>,
      pb_c = \<lparr>conn = conn1\<rparr>\<rparr>"

definition pinned_busy :: PinnedBlob where
  "pinned_busy = pinned0\<lparr>pb_c := \<lparr>conn = conn1\<lparr>sqliteConn := sqlite1\<lparr>replies := [Fails 5]\<rparr>\<rparr>\<rparr>\<rparr>"

definition pinned_retarget_fails :: PinnedBlob where
  "pinned_retarget_fails =
      pinned0\<lparr>pb_c := \<lparr>conn = conn1\<lparr>sqliteConn := sqlite1\<lparr>replies := [Runs None, Fails 10]\<rparr>\<rparr>\<rparr>\<rparr>"

text \<open>Options for the examples of \<open>initConn\<close>: the journal mode asked for is \<open>wal\<close>.\<close>

definition conn_opts :: InitConnOpts where
  "conn_opts =
     \<lparr>SetSynchronous = ''off'', SetJournalMode = ''wal'', SetLockingMode = ''exclusive'',
      MmapSizeOk = False, MmapSize = 0, CacheSize = None\<rparr>"

text \<open>
  \<open>blob_ids c\<close>: the rowids in the table \<open>blobs\<close>; \<open>key_inserted c k len\<close>: the
  connection once the engine has run the insert of the key \<open>k\<close> with length \<open>len\<close>.
\<close>

definition blob_ids :: "connStruct \<Rightarrow> rowid list" where
  "blob_ids c = map blob_id (tbl_blobs (sqliteConn c))"

definition key_inserted :: "connStruct \<Rightarrow> string \<Rightarrow> int \<Rightarrow> connStruct" where
  "key_inserted c k len =
     c\<lparr>sqliteConn := (after_reply (sqliteConn c))
        \<lparr>tbl_keys := tbl_keys (sqliteConn c) @
            [\<lparr>key_id = new_rowid (map key_id (tbl_keys (sqliteConn c))), key = k, length_col = len,
              last_used = fst (keys_defaults (sqliteConn c)),
              access_count = snd (keys_defaults (sqliteConn c))\<rparr>],
          last_insert_rowid := new_rowid (map key_id (tbl_keys (sqliteConn c)))\<rparr>\<rparr>"

text \<open>The rows of \<open>values\<close> of a key.\<close>

definition values_of :: "rowid \<Rightarrow> connStruct \<Rightarrow> values_row list" where
  "values_of v c = filter (\<lambda>r. value_id r = v) (tbl_values (sqliteConn c))"

text \<open>
  Connections for the examples of \<open>createKey\<close>: an empty database with a
  \<open>maxBlobSize\<close> of \<open>2^62\<close>, and the database after the key \<open>k\<close> of length 20 has
  been created with a \<open>maxBlobSize\<close> of 16.
\<close>

definition conn_big :: connStruct where
  "conn_big = conn0\<lparr>maxBlobSize := 2 ^ 62\<rparr>"

definition conn_k20 :: connStruct where
  "conn_k20 =
     conn0\<lparr>sqliteConn := sqlite0
        \<lparr>tbl_keys := [\<lparr>key_id = 1, key = ''k'', length_col = 20, last_used = 0, access_count = 0\<rparr>],
         tbl_blobs := [\<lparr>blob_id = 1, blob = replicate 16 0\<rparr>, \<lparr>blob_id = 2, blob = replicate 4 0\<rparr>],
         tbl_values := [\<lparr>value_id = 1, offset_col = 0, val_blob_id = 1\<rparr>,
                        \<lparr>value_id = 1, offset_col = 16, val_blob_id = 2\<rparr>],
         last_insert_rowid := 2\<rparr>\<rparr>"

text \<open>
  \<open>panicked x\<close>: the call panicked; \<open>sorted_map m\<close>: the entries of the map are in
  the order of their keys, as the entries of a \<open>btree.Map\<close> are.
\<close>

fun panicked :: "'a outcome \<Rightarrow> bool" where
  "panicked (Panic p) = True"
| "panicked _ = False"

definition sorted_map :: "blob_map \<Rightarrow> bool" where
  "sorted_map m = sorted_wrt valueKey_less (map fst m)"

text \<open>
  For the examples of \<open>iterBlobs\<close>: a callback that records the offsets it is given
  and always asks for more; the handles of the two blobs of key \<open>k\<close>; the connection
  with the first, and with the second, of them in the map.
\<close>

definition collect :: "int list iter_fn" where
  "collect off b u = ((True, None), u @ [off])"

definition handle1 :: blob_handle where
  "handle1 = \<lparr>h_rowid = 1, h_size = 16, h_write = False, h_aborted = False\<rparr>"

definition handle2 :: blob_handle where
  "handle2 = \<lparr>h_rowid = 2, h_size = 4, h_write = False, h_aborted = False\<rparr>"

definition conn_first_cached :: connStruct where
  "conn_first_cached = conn_k20\<lparr>blobs := [(\<lparr>keyId = 1, offset = 0\<rparr>, handle1)]\<rparr>"

definition conn_second_cached :: connStruct where
  "conn_second_cached = conn_k20\<lparr>blobs := [(\<lparr>keyId = 1, offset = 16\<rparr>, handle2)]\<rparr>"

section \<open>The engine's answers\<close>

lemma engine_runs_iff:
  "engine_runs s \<longleftrightarrow> (\<forall>rc rs. replies s \<noteq> Fails rc # rs)"
  by (cases "replies s")
     (auto simp: engine_runs_def runs_next_def is_Runs_def split: reply.splits)

lemma next_reply_runs:
  assumes "engine_runs s"
  shows "\<exists>t. next_reply s = (Runs t, after_reply s)"
proof (cases "replies s")
  case Nil
  then have "after_reply s = s"
    by (cases s) (simp add: after_reply_def)
  with Nil show ?thesis
    by (simp add: next_reply_def)
next
  case (Cons r rs)
  with assms obtain t where "r = Runs t"
    by (cases r) (auto simp: engine_runs_iff)
  with Cons show ?thesis
    by (simp add: next_reply_def after_reply_def)
qed

lemma next_reply_fails:
  "replies s = Fails rc # rs \<Longrightarrow> next_reply s = (Fails rc, after_reply s)"
  by (simp add: next_reply_def after_reply_def)

lemma engine_step_fails:
  "replies s = Fails rc # rs \<Longrightarrow> engine_step s q = (Inl rc, after_reply s)"
  by (simp add: engine_step_def next_reply_fails)

lemma not_pragma_case:
  "(\<And>t. q \<noteq> Pragma t) \<Longrightarrow> (case q of Pragma x \<Rightarrow> a x | _ \<Rightarrow> b) = b"
  by (cases q) auto

lemma refuses_other [simp]:
  "refuses (Pragma t) s = None" "refuses (Script n) s = None" "refuses (Begin m) s = None"
  "refuses Commit s = None" "refuses Rollback s = None" "refuses DeleteCapacity s = None"
  "refuses (InsertCapacity cap) s = None" "refuses (SelectKey k) s = None"
  "refuses (UpdateAccessed i) s = None" "refuses (SelectValueBlobs v start) s = None"
  by (simp_all add: refuses_def)

lemma engine_step_runs:
  assumes "engine_runs s" and "\<And>t. q \<noteq> Pragma t" and "refuses q (after_reply s) = None"
  shows "engine_step s q =
           (Inr (fst (run_stmt q (after_reply s))), snd (run_stmt q (after_reply s)))"
proof -
  from next_reply_runs [OF assms(1)] obtain t where "next_reply s = (Runs t, after_reply s)" ..
  then show ?thesis
    using assms(2,3) by (cases q) (auto simp: engine_step_def split: prod.splits)
qed

lemma engine_step_refused:
  assumes "engine_runs s" and "\<And>t. q \<noteq> Pragma t" and "refuses q (after_reply s) = Some rc"
  shows "engine_step s q = (Inl rc, after_reply s)"
proof -
  from next_reply_runs [OF assms(1)] obtain t where "next_reply s = (Runs t, after_reply s)" ..
  then show ?thesis
    using assms(2,3) by (cases q) (auto simp: engine_step_def split: prod.splits)
qed

lemma runs_next_Suc:
  "runs_next (Suc n) s \<longleftrightarrow> engine_runs s \<and> runs_next n (after_reply s)"
  by (cases "replies s")
     (auto simp: runs_next_def engine_runs_def after_reply_def)

section \<open>accessedKey\<close>

text \<open>
  C8. When the engine fails the update with a result code, \<open>accessedKey\<close> returns
  nil if \<open>ignoreBusy\<close> is set and the code is \<open>BUSY\<close>, and returns that error
  otherwise (so always with \<open>ignoreBusy\<close> unset); no row changes. When the engine runs
  the update, \<open>accessedKey\<close> returns nil, and every row of \<open>keys\<close> with the given
  \<open>key_id\<close> has \<open>last_used\<close> set to the engine's clock in milliseconds and
  \<open>access_count\<close> one higher; the other rows are as before.
\<close>

theorem accessedKey_busy_and_update:
  "(replies (sqliteConn c) = Fails rc # rs \<longrightarrow>
      accessedKey c k ignoreBusy =
        (if ignoreBusy \<and> rc = ResultCodeBusy then Ok () else Err (SqliteError rc),
         c\<lparr>sqliteConn := after_reply (sqliteConn c)\<rparr>))
   \<and> (engine_runs (sqliteConn c) \<longrightarrow>
      accessedKey c k ignoreBusy =
        (Ok (),
         c\<lparr>sqliteConn := (after_reply (sqliteConn c))
            \<lparr>tbl_keys :=
               map (\<lambda>r. if key_id r = k
                         then r\<lparr>last_used := clock_ms (sqliteConn c),
                                access_count := access_count r + 1\<rparr>
                         else r)
                   (tbl_keys (sqliteConn c))\<rparr>\<rparr>))"
proof (intro conjI impI)
  assume "replies (sqliteConn c) = Fails rc # rs"
  then have "sqliteExec c (UpdateAccessed k) =
               (Err (SqliteError rc), c\<lparr>sqliteConn := after_reply (sqliteConn c)\<rparr>)"
    by (simp add: sqliteExec_def engine_step_fails)
  then show "accessedKey c k ignoreBusy =
        (if ignoreBusy \<and> rc = ResultCodeBusy then Ok () else Err (SqliteError rc),
         c\<lparr>sqliteConn := after_reply (sqliteConn c)\<rparr>)"
    by (simp add: accessedKey_def)
next
  assume "engine_runs (sqliteConn c)"
  then have "sqliteExec c (UpdateAccessed k) =
               (Ok (), c\<lparr>sqliteConn := snd (run_stmt (UpdateAccessed k) (after_reply (sqliteConn c)))\<rparr>)"
    by (simp add: sqliteExec_def engine_step_runs refuses_def)
  then show "accessedKey c k ignoreBusy =
        (Ok (),
         c\<lparr>sqliteConn := (after_reply (sqliteConn c))
            \<lparr>tbl_keys :=
               map (\<lambda>r. if key_id r = k
                         then r\<lparr>last_used := clock_ms (sqliteConn c),
                                access_count := access_count r + 1\<rparr>
                         else r)
                   (tbl_keys (sqliteConn c))\<rparr>\<rparr>)"
    by (simp add: accessedKey_def after_reply_def accessed_row_def [abs_def])
qed

theorem accessedKey_busy_and_update_witness:
  "accessedKey (conn1\<lparr>sqliteConn := sqlite1\<lparr>replies := [Fails 5]\<rparr>\<rparr>) 1 True =
     (Ok (), conn1)
   \<and> accessedKey (conn1\<lparr>sqliteConn := sqlite1\<lparr>replies := [Fails 5]\<rparr>\<rparr>) 1 False =
     (Err (SqliteError 5), conn1)
   \<and> accessedKey conn1 1 True =
     (Ok (), conn1\<lparr>sqliteConn := sqlite1
        \<lparr>tbl_keys := [\<lparr>key_id = 1, key = ''a'', length_col = 3,
                        last_used = 1700000000000, access_count = 1\<rparr>]\<rparr>\<rparr>)"
  using accessedKey_busy_and_update
          [of "conn1\<lparr>sqliteConn := sqlite1\<lparr>replies := [Fails 5]\<rparr>\<rparr>" 5 "[]" 1 True]
        accessedKey_busy_and_update
          [of "conn1\<lparr>sqliteConn := sqlite1\<lparr>replies := [Fails 5]\<rparr>\<rparr>" 5 "[]" 1 False]
        accessedKey_busy_and_update [of conn1 5 "[]" 1 True]
  by (simp add: conn1_def sqlite1_def sqlite0_def after_reply_def ResultCodeBusy_def
        engine_runs_def runs_next_def)

section \<open>initDatabase\<close>

lemma next_reply_setting:
  "next_reply s = (r, s') \<Longrightarrow> tbl_setting s' = tbl_setting s"
  by (auto simp: next_reply_def split: list.splits)

lemma run_stmt_setting:
  "keeps_setting q \<Longrightarrow> tbl_setting (snd (run_stmt q s)) = tbl_setting s"
  by (cases q) (simp_all add: keeps_setting_def Let_def)

lemma engine_step_setting:
  assumes "keeps_setting q" and "engine_step s q = (r, s')"
  shows "tbl_setting s' = tbl_setting s"
proof (cases "next_reply s")
  case (Pair rep s1)
  then have s1: "tbl_setting s1 = tbl_setting s"
    by (rule next_reply_setting)
  show ?thesis
  proof (cases rep)
    case (Fails rc)
    with Pair assms(2) s1 show ?thesis
      by (simp add: engine_step_def)
  next
    case (Runs t)
    with Pair assms s1 run_stmt_setting [of q s1] show ?thesis
      by (cases q)
         (auto simp: engine_step_def keeps_setting_def refuses_def
               split: prod.splits if_splits)
  qed
qed

lemma sqlitex_Exec_setting:
  assumes "sqlitex_Exec s q = (r, s')" and "keeps_setting q"
  shows "tbl_setting s' = tbl_setting s"
  using assms(1) engine_step_setting [OF assms(2), of s]
  by (auto simp: sqlitex_Exec_def split: prod.splits sum.splits)

lemma execTransientReturningText_setting:
  assumes "execTransientReturningText s q = (r, s')"
  shows "tbl_setting s' = tbl_setting s"
  using assms engine_step_setting [of "Pragma q" s]
  by (auto simp: execTransientReturningText_def keeps_setting_def
           split: prod.splits sum.splits list.splits column.splits)

lemma andThen_setting:
  assumes "andThen r f = (x, s')"
    and "tbl_setting (snd r) = T"
    and "\<And>v s1 y s2. f v s1 = (y, s2) \<Longrightarrow> tbl_setting s1 = T \<Longrightarrow> tbl_setting s2 = T"
  shows "tbl_setting s' = T"
proof (cases r)
  case (Pair o1 s1)
  show ?thesis
  proof (cases o1)
    case (Ok v)
    with Pair assms(1) have "f v s1 = (x, s')"
      by (simp add: andThen_def)
    moreover from Pair assms(2) have "tbl_setting s1 = T" by simp
    ultimately show ?thesis by (rule assms(3))
  next
    case (Err e)
    with Pair assms(1,2) show ?thesis by (simp add: andThen_def)
  next
    case (Panic p)
    with Pair assms(1,2) show ?thesis by (simp add: andThen_def)
  qed
qed

lemma setAndMaybeVerifyPragma_setting:
  assumes "setAndMaybeVerifyPragma s name v verify = (r, s')"
  shows "tbl_setting s' = tbl_setting s"
  using assms unfolding setAndMaybeVerifyPragma_def
proof (rule andThen_setting)
  show "tbl_setting (snd (sqlitex_Exec s (Pragma (''pragma '' @ name @ ''='' @ v)))) = tbl_setting s"
    by (rule sqlitex_Exec_setting [OF surjective_pairing]) (simp add: keeps_setting_def)
next
  fix u :: unit and s1 y s2
  assume step: "(case verify of
            None \<Rightarrow> (Ok (), s1)
          | Some want \<Rightarrow>
              andThen (execTransientReturningText s1 (''pragma '' @ name))
                (\<lambda>actual s2.
                   case actual of
                     None \<Rightarrow> (Panic PanicUnwrap, s2)
                   | Some a \<Rightarrow>
                       (if a \<noteq> want
                        then (Err (ErrorsNew (''pragma '' @ name @ '' is '' @ a @ '' not '' @ want)), s2)
                        else (Ok (), s2)))) = (y, s2)"
    and s1: "tbl_setting s1 = tbl_setting s"
  show "tbl_setting s2 = tbl_setting s"
  proof (cases verify)
    case None
    with step s1 show ?thesis by simp
  next
    case (Some want)
    with step have "andThen (execTransientReturningText s1 (''pragma '' @ name))
                (\<lambda>actual s2.
                   case actual of
                     None \<Rightarrow> (Panic PanicUnwrap, s2)
                   | Some a \<Rightarrow>
                       (if a \<noteq> want
                        then (Err (ErrorsNew (''pragma '' @ name @ '' is '' @ a @ '' not '' @ want)), s2)
                        else (Ok (), s2))) = (y, s2)" by simp
    then show ?thesis
    proof (rule andThen_setting)
      show "tbl_setting (snd (execTransientReturningText s1 (''pragma '' @ name))) = tbl_setting s"
        using execTransientReturningText_setting [OF surjective_pairing] s1 by simp
    qed (auto split: option.splits if_splits)
  qed
qed

lemma setPageSize_setting:
  assumes "setPageSize s pageSize = (r, s')"
  shows "tbl_setting s' = tbl_setting s"
  using assms setAndMaybeVerifyPragma_setting
  by (auto simp: setPageSize_def setAndVerifyPragma_def split: if_splits)

lemma WithTransactionRollbackOnError_setting:
  assumes "WithTransactionRollbackOnError s level f = (r, s')"
    and "\<And>s1 y s2. f s1 = (y, s2) \<Longrightarrow> tbl_setting s2 = tbl_setting s1"
  shows "tbl_setting s' = tbl_setting s"
  using assms(1) unfolding WithTransactionRollbackOnError_def
proof (rule andThen_setting)
  show "tbl_setting (snd (sqlitex_Exec s (Begin level))) = tbl_setting s"
    by (rule sqlitex_Exec_setting [OF surjective_pairing]) (simp add: keeps_setting_def)
next
  fix u :: unit and s1 y s3
  assume step: "(case f s1 of
            (Ok _, s2) \<Rightarrow> sqlitex_Exec s2 Commit
          | (Err e, s2) \<Rightarrow>
              (case sqlitex_Exec s2 Rollback of (_, s3) \<Rightarrow> (Err e, restore_tables s1 s3))
          | (Panic p, s2) \<Rightarrow> (Panic p, s2)) = (y, s3)"
    and s1: "tbl_setting s1 = tbl_setting s"
  obtain o2 s2 where f: "f s1 = (o2, s2)" by (cases "f s1")
  then have s2: "tbl_setting s2 = tbl_setting s" using assms(2) s1 by simp
  show "tbl_setting s3 = tbl_setting s"
  proof (cases o2)
    case (Ok v)
    with step f have "sqlitex_Exec s2 Commit = (y, s3)" by simp
    then have "tbl_setting s3 = tbl_setting s2"
      by (rule sqlitex_Exec_setting) (simp add: keeps_setting_def)
    with s2 show ?thesis by simp
  next
    case (Err e)
    with step f s1 show ?thesis
      by (auto simp: restore_tables_def split: prod.splits)
  next
    case (Panic p)
    with step f s2 show ?thesis by simp
  qed
qed

lemma InitSchema_setting:
  assumes "InitSchema s pageSize triggers = (r, s')"
  shows "tbl_setting s' = tbl_setting s"
proof -
  obtain o1 s1 where ps: "setPageSize s pageSize = (o1, s1)" by (cases "setPageSize s pageSize")
  then have s1: "tbl_setting s1 = tbl_setting s" by (rule setPageSize_setting)
  show ?thesis
  proof (cases o1)
    case (Ok v)
    with assms ps have "WithTransactionRollbackOnError s1 ''immediate''
            (\<lambda>s2. andThen (sqlitex_Exec s2 (Script ''init.sql''))
                     (\<lambda>_ s3.
                        if triggers then
                          (case sqlitex_Exec s3 (Script ''init-triggers.sql'') of
                             (Err e, s4) \<Rightarrow> (Err (Errorf ''initing triggers: '' e), s4)
                           | r \<Rightarrow> r)
                        else (Ok (), s3))) = (r, s')"
      by (simp add: InitSchema_def)
    then have "tbl_setting s' = tbl_setting s1"
    proof (rule WithTransactionRollbackOnError_setting)
      fix s2 y s4
      assume "andThen (sqlitex_Exec s2 (Script ''init.sql''))
                     (\<lambda>_ s3.
                        if triggers then
                          (case sqlitex_Exec s3 (Script ''init-triggers.sql'') of
                             (Err e, s4) \<Rightarrow> (Err (Errorf ''initing triggers: '' e), s4)
                           | r \<Rightarrow> r)
                        else (Ok (), s3)) = (y, s4)"
      then show "tbl_setting s4 = tbl_setting s2"
      proof (rule andThen_setting)
        show "tbl_setting (snd (sqlitex_Exec s2 (Script ''init.sql''))) = tbl_setting s2"
          by (rule sqlitex_Exec_setting [OF surjective_pairing]) (simp add: keeps_setting_def)
      next
        fix u :: unit and s3 y' s5
        assume "(if triggers then
                          (case sqlitex_Exec s3 (Script ''init-triggers.sql'') of
                             (Err e, s4) \<Rightarrow> (Err (Errorf ''initing triggers: '' e), s4)
                           | r \<Rightarrow> r)
                        else (Ok (), s3)) = (y', s5)"
          and "tbl_setting s3 = tbl_setting s2"
        then show "tbl_setting s5 = tbl_setting s2"
          using sqlitex_Exec_setting [of s3 "Script ''init-triggers.sql''"]
          by (auto simp: keeps_setting_def split: if_splits prod.splits outcome.splits)
      qed
    qed
    with s1 show ?thesis by simp
  next
    case (Err e)
    with assms ps s1 show ?thesis by (simp add: InitSchema_def)
  next
    case (Panic p)
    with assms ps s1 show ?thesis by (simp add: InitSchema_def)
  qed
qed

lemma sqlitex_Exec_Ok:
  assumes "sqlitex_Exec s q = (Ok u, s')" and "\<And>t. q \<noteq> Pragma t"
  shows "\<exists>t s1. next_reply s = (Runs t, s1) \<and> s' = snd (run_stmt q s1)"
proof (cases "next_reply s")
  case (Pair rep s1)
  show ?thesis
  proof (cases rep)
    case (Fails rc)
    with Pair assms(1) show ?thesis
      by (simp add: sqlitex_Exec_def engine_step_def)
  next
    case (Runs t)
    with Pair assms show ?thesis
      by (cases q)
         (auto simp: sqlitex_Exec_def engine_step_def refuses_def
               split: prod.splits if_splits)
  qed
qed

lemma unlimitCapacity_Ok:
  assumes "unlimitCapacity s = (Ok u, s')"
  shows "tbl_setting s' = filter (\<lambda>r. fst r \<noteq> ''capacity'') (tbl_setting s)"
proof -
  from assms obtain t s1 where "next_reply s = (Runs t, s1)" and "s' = snd (run_stmt DeleteCapacity s1)"
    unfolding unlimitCapacity_def by (blast dest: sqlitex_Exec_Ok)
  then show ?thesis
    by (simp add: next_reply_setting)
qed

lemma setCapacity_Ok:
  assumes "setCapacity s cap = (Ok u, s')"
  shows "tbl_setting s' = filter (\<lambda>r. fst r \<noteq> ''capacity'') (tbl_setting s) @ [(''capacity'', cap)]"
proof -
  from assms obtain t s1 where "next_reply s = (Runs t, s1)" and "s' = snd (run_stmt (InsertCapacity cap) s1)"
    unfolding setCapacity_def by (blast dest: sqlitex_Exec_Ok)
  then show ?thesis
    by (simp add: next_reply_setting insert_setting_def)
qed

lemma andThen_Ok:
  assumes "andThen r f = (Ok v, s')"
  obtains u s1 where "r = (Ok u, s1)" and "f u s1 = (Ok v, s')"
  using assms by (auto simp: andThen_def split: prod.splits outcome.splits)

lemma initDatabase_Ok:
  assumes "initDatabase s opts = (Ok u, s')"
  obtains s2 where "tbl_setting s2 = tbl_setting s"
    and "(if Capacity opts < 0 then unlimitCapacity s2
          else if Capacity opts > 0 then setCapacity s2 (Capacity opts)
          else (Ok (), s2)) = (Ok u, s')"
proof -
  from assms [unfolded initDatabase_def] obtain u1 s1 where
    a: "(case SetAutoVacuum opts of
          Some v \<Rightarrow> setAndMaybeVerifyPragma s ''auto_vacuum'' v (RequireAutoVacuum opts)
        | None \<Rightarrow>
            (case RequireAutoVacuum opts of
               Some want \<Rightarrow>
                 andThen (execTransientReturningText s ''pragma auto_vacuum'')
                   (\<lambda>autoVacuumValue s1.
                      case autoVacuumValue of
                        None \<Rightarrow> (Panic PanicUnwrap, s1)
                      | Some a \<Rightarrow>
                          (if a \<noteq> want
                           then (Err (ErrorsNew (''auto_vacuum is '' @ quoted a @ '' not '' @ quoted want)), s1)
                           else (Ok (), s1)))
             | None \<Rightarrow> (Ok (), s))) = (Ok u1, s1)"
    and rest: "andThen
            (if \<not> DontInitSchema opts then
               (case InitSchema s1 (PageSize opts) (\<not> NoTriggers opts) of
                  (Err e, s2) \<Rightarrow> (Err (Errorf ''initing schema: '' e), s2)
                | r \<Rightarrow> r)
             else (Ok (), s1))
            (\<lambda>_ s2.
               if Capacity opts < 0 then unlimitCapacity s2
               else if Capacity opts > 0 then setCapacity s2 (Capacity opts)
               else (Ok (), s2)) = (Ok u, s')"
    by (rule andThen_Ok)
  have s1: "tbl_setting s1 = tbl_setting s"
  proof (cases "SetAutoVacuum opts")
    case (Some v)
    with a show ?thesis by (simp add: setAndMaybeVerifyPragma_setting)
  next
    case None
    show ?thesis
    proof (cases "RequireAutoVacuum opts")
      case (Some want)
      with None a obtain av where "execTransientReturningText s ''pragma auto_vacuum'' = (Ok av, s1)"
        by (auto elim!: andThen_Ok split: option.splits if_splits)
      then show ?thesis by (rule execTransientReturningText_setting)
    next
      case None
      with \<open>SetAutoVacuum opts = None\<close> a show ?thesis by simp
    qed
  qed
  from rest obtain u2 s2 where
    b: "(if \<not> DontInitSchema opts then
               (case InitSchema s1 (PageSize opts) (\<not> NoTriggers opts) of
                  (Err e, s2) \<Rightarrow> (Err (Errorf ''initing schema: '' e), s2)
                | r \<Rightarrow> r)
             else (Ok (), s1)) = (Ok u2, s2)"
    and c: "(if Capacity opts < 0 then unlimitCapacity s2
          else if Capacity opts > 0 then setCapacity s2 (Capacity opts)
          else (Ok (), s2)) = (Ok u, s')"
    by (rule andThen_Ok)
  have "tbl_setting s2 = tbl_setting s1"
  proof (cases "DontInitSchema opts")
    case True
    with b show ?thesis by simp
  next
    case False
    with b have "InitSchema s1 (PageSize opts) (\<not> NoTriggers opts) = (Ok u2, s2)"
      by (auto split: prod.splits outcome.splits)
    then show ?thesis by (rule InitSchema_setting)
  qed
  with s1 c that show thesis by simp
qed

text \<open>
  C1. Whenever \<open>initDatabase\<close> returns nil, it has applied the capacity directive to
  the table \<open>setting\<close>: with a negative \<open>Capacity\<close> the rows named
  \<open>capacity\<close> are deleted; with a positive \<open>Capacity\<close> the other rows are kept
  and exactly one row \<open>(capacity, Capacity)\<close> is there, whether or not there was one
  before; with \<open>Capacity\<close> zero the table is as it was.
\<close>

theorem initDatabase_capacity_directive:
  assumes "initDatabase s opts = (Ok (), s')"
  shows "(Capacity opts < 0 \<longrightarrow>
            tbl_setting s' = filter (\<lambda>r. fst r \<noteq> ''capacity'') (tbl_setting s))
       \<and> (Capacity opts > 0 \<longrightarrow>
            tbl_setting s' =
              filter (\<lambda>r. fst r \<noteq> ''capacity'') (tbl_setting s) @ [(''capacity'', Capacity opts)]
            \<and> filter (\<lambda>r. fst r = ''capacity'') (tbl_setting s') = [(''capacity'', Capacity opts)])
       \<and> (Capacity opts = 0 \<longrightarrow> tbl_setting s' = tbl_setting s)"
proof -
  from assms obtain s2 where s2: "tbl_setting s2 = tbl_setting s"
    and d: "(if Capacity opts < 0 then unlimitCapacity s2
          else if Capacity opts > 0 then setCapacity s2 (Capacity opts)
          else (Ok (), s2)) = (Ok (), s')"
    by (rule initDatabase_Ok)
  have neg: "tbl_setting s' = filter (\<lambda>r. fst r \<noteq> ''capacity'') (tbl_setting s)"
    if "Capacity opts < 0"
    using that d s2 unlimitCapacity_Ok [of s2 "()" s'] by simp
  have pos: "tbl_setting s' =
      filter (\<lambda>r. fst r \<noteq> ''capacity'') (tbl_setting s) @ [(''capacity'', Capacity opts)]"
    if "Capacity opts > 0"
    using that d s2 setCapacity_Ok [of s2 "Capacity opts" "()" s'] by simp
  have zero: "tbl_setting s' = tbl_setting s" if "Capacity opts = 0"
    using that d s2 by simp
  from neg pos zero show ?thesis
    by simp
qed

theorem initDatabase_capacity_directive_witness:
  "fst (initDatabase sqlite_init (opts_cap (-1))) = Ok ()
   \<and> tbl_setting (snd (initDatabase sqlite_init (opts_cap (-1)))) = [(''other'', 1)]
   \<and> fst (initDatabase sqlite_init (opts_cap 100)) = Ok ()
   \<and> tbl_setting (snd (initDatabase sqlite_init (opts_cap 100))) = [(''other'', 1), (''capacity'', 100)]
   \<and> fst (initDatabase sqlite_init (opts_cap 0)) = Ok ()
   \<and> tbl_setting (snd (initDatabase sqlite_init (opts_cap 0))) = [(''capacity'', 5), (''other'', 1)]"
proof -
  note defs = initDatabase_def opts_cap_def sqlite_init_def sqlite0_def andThen_def
    setAndMaybeVerifyPragma_def sqlitex_Exec_def engine_step_def next_reply_def
    execTransientReturningText_def InitSchema_def setPageSize_def setAndVerifyPragma_def
    WithTransactionRollbackOnError_def unlimitCapacity_def setCapacity_def show_int_def
  have neg: "fst (initDatabase sqlite_init (opts_cap (-1))) = Ok ()"
    by (simp add: defs)
  have pos: "fst (initDatabase sqlite_init (opts_cap 100)) = Ok ()"
    by (simp add: defs)
  have zero: "fst (initDatabase sqlite_init (opts_cap 0)) = Ok ()"
    by (simp add: defs)
  have s: "tbl_setting sqlite_init = [(''capacity'', 5), (''other'', 1)]"
    by (simp add: sqlite_init_def)
  have c: "Capacity (opts_cap x) = x" for x
    by (simp add: opts_cap_def)
  from neg initDatabase_capacity_directive [of sqlite_init "opts_cap (-1)" "snd (initDatabase sqlite_init (opts_cap (-1)))"]
  have 1: "tbl_setting (snd (initDatabase sqlite_init (opts_cap (-1)))) = [(''other'', 1)]"
    by (simp add: s c prod_eq_iff)
  from pos initDatabase_capacity_directive [of sqlite_init "opts_cap 100" "snd (initDatabase sqlite_init (opts_cap 100))"]
  have 2: "tbl_setting (snd (initDatabase sqlite_init (opts_cap 100))) = [(''other'', 1), (''capacity'', 100)]"
    by (simp add: s c prod_eq_iff)
  from zero initDatabase_capacity_directive [of sqlite_init "opts_cap 0" "snd (initDatabase sqlite_init (opts_cap 0))"]
  have 3: "tbl_setting (snd (initDatabase sqlite_init (opts_cap 0))) = [(''capacity'', 5), (''other'', 1)]"
    by (simp add: s c prod_eq_iff)
  from neg pos zero 1 2 3 show ?thesis by simp
qed

section \<open>Queries for a key\<close>

lemma sqliteQuery_fails:
  "replies (sqliteConn c) = Fails rc # rs \<Longrightarrow>
     sqliteQuery c q result a = (Err (SqliteError rc), replied c, a)"
  by (simp add: sqliteQuery_def engine_step_fails replied_def)

lemma sqliteQuery_SelectKey:
  assumes "engine_runs (sqliteConn c)"
  shows "sqliteQuery c (SelectKey k) result a =
           each_row result (map (\<lambda>r. [ColInt (key_id r), ColInt (length_col r)]) (keys_named k c))
             (replied c, a)"
  using assms
  by (simp add: sqliteQuery_def engine_step_runs refuses_def replied_def keys_named_def
        after_reply_def)

lemma sqliteQueryRow_fails:
  "replies (sqliteConn c) = Fails rc # rs \<Longrightarrow>
     sqliteQueryRow c q result a = (Err (SqliteError rc), replied c, a)"
  by (simp add: sqliteQueryRow_def sqliteQuery_fails)

lemma sqliteQueryRow_SelectKey_none:
  assumes "engine_runs (sqliteConn c)" and "keys_named k c = []"
  shows "sqliteQueryRow c (SelectKey k) result a = (Ok False, replied c, a)"
  using assms by (simp add: sqliteQueryRow_def sqliteQuery_SelectKey)

lemma sqliteQueryRow_SelectKey_one:
  assumes "engine_runs (sqliteConn c)" and "keys_named k c = [r]"
    and "result [ColInt (key_id r), ColInt (length_col r)] (replied c, a) = (Ok (), c', a')"
  shows "sqliteQueryRow c (SelectKey k) result a = (Ok True, c', a')"
  using assms by (simp add: sqliteQueryRow_def sqliteQuery_SelectKey)

lemma rowidForBlob_fails:
  "replies (sqliteConn c) = Fails rc # rs \<Longrightarrow>
     rowidForBlob c name = (Err (SqliteError rc), replied c)"
  by (simp add: rowidForBlob_def sqliteQueryRow_fails)

lemma rowidForBlob_none:
  assumes "engine_runs (sqliteConn c)" and "keys_named name c = []"
  shows "rowidForBlob c name = (Ok (0, 0, False), replied c)"
  using assms by (simp add: rowidForBlob_def sqliteQueryRow_SelectKey_none)

lemma openKey_none:
  assumes "engine_runs (sqliteConn c)" and "keys_named k c = []"
  shows "openKey c k = (Err ErrNotFound, replied c)"
  using assms by (simp add: openKey_def sqliteQueryRow_SelectKey_none)

section \<open>Reopen\<close>

text \<open>
  C5, as amended. When there is no row of \<open>keys\<close> for the name and the engine runs the
  lookup, \<open>Reopen\<close> returns the error it makes itself with
  \<open>errors.New("rowid for name not found")\<close> and leaves the blob handle as it was. That
  error is not \<open>ErrNotFound\<close>, which \<open>openKey\<close> returns for the same key.
\<close>

theorem Reopen_missing_key:
  assumes "keys_named name (conn (pb_c pb)) = []"
    and "engine_runs (sqliteConn (conn (pb_c pb)))"
  shows "Reopen pb name =
           (Err (ErrorsNew ''rowid for name not found''),
            pb\<lparr>pb_c := (pb_c pb)\<lparr>conn := replied (conn (pb_c pb))\<rparr>\<rparr>)
         \<and> pb_blob (snd (Reopen pb name)) = pb_blob pb
         \<and> err_of (fst (openKey (conn (pb_c pb)) name)) = Some ErrNotFound
         \<and> err_of (fst (Reopen pb name)) \<noteq> Some ErrNotFound"
proof -
  from assms have "rowidForBlob (conn (pb_c pb)) name = (Ok (0, 0, False), replied (conn (pb_c pb)))"
    by (simp add: rowidForBlob_none)
  then have r: "Reopen pb name =
           (Err (ErrorsNew ''rowid for name not found''),
            pb\<lparr>pb_c := (pb_c pb)\<lparr>conn := replied (conn (pb_c pb))\<rparr>\<rparr>)"
    by (simp add: Reopen_def)
  moreover from assms have "openKey (conn (pb_c pb)) name = (Err ErrNotFound, replied (conn (pb_c pb)))"
    by (simp add: openKey_none)
  ultimately show ?thesis by simp
qed

text \<open>The pinned blob of the example is on key \<open>a\<close>; there is no key \<open>missing\<close>.\<close>

theorem Reopen_missing_key_witness:
  "Reopen pinned0 ''missing'' = (Err (ErrorsNew ''rowid for name not found''), pinned0)
   \<and> pb_blob (snd (Reopen pinned0 ''missing'')) = pb_blob pinned0"
  using Reopen_missing_key [of "''missing''" pinned0]
  by (simp add: pinned0_def conn1_def sqlite1_def sqlite0_def keys_named_def replied_def
        after_reply_def engine_runs_def runs_next_def)

text \<open>
  C5 as stated fails: on the key \<open>missing\<close>, \<open>openKey\<close> returns \<open>ErrNotFound\<close> and
  \<open>Reopen\<close> returns another error.
\<close>

theorem Reopen_missing_key_counterexample:
  "fst (openKey conn1 ''missing'') = Err ErrNotFound
   \<and> fst (Reopen pinned0 ''missing'') = Err (ErrorsNew ''rowid for name not found'')
   \<and> fst (Reopen pinned0 ''missing'') \<noteq> Err ErrNotFound"
proof -
  have k: "keys_named ''missing'' conn1 = []"
    by (simp add: keys_named_def conn1_def sqlite1_def sqlite0_def)
  have e: "engine_runs (sqliteConn conn1)"
    by (simp add: conn1_def sqlite1_def sqlite0_def engine_runs_def runs_next_def)
  have "rowidForBlob conn1 ''missing'' = (Ok (0, 0, False), replied conn1)"
    using e k by (rule rowidForBlob_none)
  then have "fst (Reopen pinned0 ''missing'') = Err (ErrorsNew ''rowid for name not found'')"
    by (simp add: Reopen_def pinned0_def)
  moreover have "fst (openKey conn1 ''missing'') = Err ErrNotFound"
    using e k by (simp add: openKey_none)
  ultimately show ?thesis by simp
qed

text \<open>
  C9. When the lookup of the rowid returns an error, \<open>Reopen\<close> returns that error and
  the blob handle is as it was (on the same row, not aborted if it was not). And when a
  handle that was not aborted is aborted after \<open>Reopen\<close>, the lookup had found the row
  and it is the retargeting of the handle that failed, with the error \<open>Reopen\<close> returns.
\<close>

theorem Reopen_lookup_error:
  "(rowidForBlob (conn (pb_c pb)) name = (Err e, c') \<longrightarrow>
      Reopen pb name = (Err e, pb\<lparr>pb_c := (pb_c pb)\<lparr>conn := c'\<rparr>\<rparr>)
      \<and> pb_blob (snd (Reopen pb name)) = pb_blob pb)
   \<and> (\<not> h_aborted (pb_blob pb) \<and> h_aborted (pb_blob (snd (Reopen pb name))) \<longrightarrow>
        (\<exists>rowid len c1 e1.
           rowidForBlob (conn (pb_c pb)) name = (Ok (rowid, len, True), c1)
           \<and> fst (Blob_Reopen (pb_blob pb) (sqliteConn c1) rowid) = Err e1
           \<and> fst (Reopen pb name) = Err e1))"
proof (rule conjI; rule impI)
  assume "rowidForBlob (conn (pb_c pb)) name = (Err e, c')"
  then show "Reopen pb name = (Err e, pb\<lparr>pb_c := (pb_c pb)\<lparr>conn := c'\<rparr>\<rparr>)
      \<and> pb_blob (snd (Reopen pb name)) = pb_blob pb"
    by (simp add: Reopen_def)
next
  assume a: "\<not> h_aborted (pb_blob pb) \<and> h_aborted (pb_blob (snd (Reopen pb name)))"
  obtain o1 c1 where l: "rowidForBlob (conn (pb_c pb)) name = (o1, c1)"
    by (cases "rowidForBlob (conn (pb_c pb)) name")
  show "\<exists>rowid len c1 e1.
           rowidForBlob (conn (pb_c pb)) name = (Ok (rowid, len, True), c1)
           \<and> fst (Blob_Reopen (pb_blob pb) (sqliteConn c1) rowid) = Err e1
           \<and> fst (Reopen pb name) = Err e1"
  proof (cases o1)
    case (Ok v)
    obtain rowid len ok where v: "v = (rowid, len, ok)" by (cases v)
    show ?thesis
    proof (cases ok)
      case True
      obtain o2 b' s' where br: "Blob_Reopen (pb_blob pb) (sqliteConn c1) rowid = (o2, b', s')"
        by (cases "Blob_Reopen (pb_blob pb) (sqliteConn c1) rowid")
      with l Ok v True have re: "Reopen pb name =
          (o2, pb\<lparr>pb_blob := b', pb_c := (pb_c pb)\<lparr>conn := c1\<lparr>sqliteConn := s'\<rparr>\<rparr>\<rparr>)"
        by (simp add: Reopen_def)
      with a have "h_aborted b'" by simp
      with br a obtain e1 where "o2 = Err e1"
        by (auto simp: Blob_Reopen_def split: prod.splits reply.splits option.splits if_splits)
      with l Ok v True br re show ?thesis by simp
    next
      case False
      with l Ok v a show ?thesis by (simp add: Reopen_def)
    qed
  next
    case (Err e)
    with l a show ?thesis by (simp add: Reopen_def)
  next
    case (Panic p)
    with l a show ?thesis by (simp add: Reopen_def)
  qed
qed

theorem Reopen_lookup_error_witness:
  "rowidForBlob (conn (pb_c pinned_busy)) ''a'' = (Err (SqliteError 5), conn1)
   \<and> Reopen pinned_busy ''a'' = (Err (SqliteError 5), pinned0)
   \<and> \<not> h_aborted (pb_blob pinned_retarget_fails)
   \<and> h_aborted (pb_blob (snd (Reopen pinned_retarget_fails ''a'')))
   \<and> fst (Reopen pinned_retarget_fails ''a'') = Err (SqliteError 10)"
proof -
  have l: "rowidForBlob (conn (pb_c pinned_busy)) ''a'' = (Err (SqliteError 5), conn1)"
    by (simp add: pinned_busy_def pinned0_def conn1_def sqlite1_def sqlite0_def
          rowidForBlob_fails [of _ 5 "[]"] replied_def after_reply_def)
  have p: "pinned_busy\<lparr>pb_c := (pb_c pinned_busy)\<lparr>conn := conn1\<rparr>\<rparr> = pinned0"
    by (simp add: pinned_busy_def pinned0_def)
  have r: "engine_runs (sqliteConn (conn (pb_c pinned_retarget_fails)))"
    by (simp add: pinned_retarget_fails_def pinned0_def conn1_def sqlite1_def sqlite0_def
          engine_runs_def runs_next_def is_Runs_def)
  have k: "keys_named ''a'' (conn (pb_c pinned_retarget_fails)) =
            [\<lparr>key_id = 1, key = ''a'', length_col = 3, last_used = 10, access_count = 0\<rparr>]"
    by (simp add: pinned_retarget_fails_def pinned0_def conn1_def sqlite1_def sqlite0_def
          keys_named_def)
  have "rowidForBlob (conn (pb_c pinned_retarget_fails)) ''a'' =
          (Ok (1, 3, True), replied (conn (pb_c pinned_retarget_fails)))"
    unfolding rowidForBlob_def
    by (subst sqliteQueryRow_SelectKey_one
          [OF r k, where c' = "replied (conn (pb_c pinned_retarget_fails))" and a' = "(1, 3)"])
       (simp_all add: ColumnInt64_def)
  then have full: "Reopen pinned_retarget_fails ''a'' =
      (Err (SqliteError 10),
       pinned0\<lparr>pb_blob := (pb_blob pinned0)\<lparr>h_aborted := True\<rparr>\<rparr>)"
    by (simp add: Reopen_def Blob_Reopen_def next_reply_def replied_def after_reply_def
         pinned_retarget_fails_def pinned0_def conn1_def sqlite1_def sqlite0_def)
  then have a: "h_aborted (pb_blob (snd (Reopen pinned_retarget_fails ''a'')))"
    by simp
  have n: "\<not> h_aborted (pb_blob pinned_retarget_fails)"
    by (simp add: pinned_retarget_fails_def pinned0_def)
  from Reopen_lookup_error [of pinned_busy "''a''" "SqliteError 5" conn1] l p
  have 1: "Reopen pinned_busy ''a'' = (Err (SqliteError 5), pinned0)" by simp
  from Reopen_lookup_error [of pinned_retarget_fails "''a''"] a n
  obtain e1 where "fst (Reopen pinned_retarget_fails ''a'') = Err e1"
    by blast
  with full have 2: "fst (Reopen pinned_retarget_fails ''a'') = Err (SqliteError 10)"
    by simp
  from l 1 n a 2 show ?thesis by simp
qed

section \<open>initConn\<close>

lemma execTransientReturningText_text:
  assumes "replies s = Runs (Some x) # rs"
  shows "execTransientReturningText s q = (Ok (Some x), after_reply s)"
  using assms
  by (simp add: execTransientReturningText_def engine_step_def next_reply_def after_reply_def)

text \<open>
  C6. With a journal mode asked for, once \<open>synchronous\<close>, \<open>recursive_triggers\<close> and
  the page size are set, \<open>initConn\<close> runs the \<open>journal_mode\<close> pragma. When the
  engine returns a mode other than the one asked for, \<open>initConn\<close> returns
  \<open>ErrUnexpectedJournalMode\<close> with the mode returned; when it returns the mode asked
  for, \<open>initConn\<close> goes on with the steps that remain (locking mode, mmap size, cache
  size) and returns what they return.
\<close>

theorem initConn_journal_mode:
  assumes "SetJournalMode opts \<noteq> []"
    and "setSynchronous s (SetSynchronous opts) = (Ok (), s1)"
    and "sqlitex_Exec s1 (Pragma ''pragma recursive_triggers=on'') = (Ok (), s2)"
    and "setPageSize s2 pageSize = (Ok (), s3)"
    and "replies s3 = Runs (Some actual) # rs"
  shows "initConn s opts pageSize =
           (if actual \<noteq> SetJournalMode opts
            then (Err (ErrUnexpectedJournalMode actual), after_reply s3)
            else initConn_after_journal_mode (after_reply s3) opts)"
proof -
  from assms(5)
  have "execTransientReturningText s3 (''pragma journal_mode='' @ SetJournalMode opts) =
          (Ok (Some actual), after_reply s3)"
    by (rule execTransientReturningText_text)
  with assms(1-4) show ?thesis
    by (simp add: initConn_def andThen_def)
qed

text \<open>
  Asking for \<open>wal\<close>: an engine that answers \<open>delete\<close> gives
  \<open>ErrUnexpectedJournalMode delete\<close>; one that answers \<open>wal\<close> lets \<open>initConn\<close> go on
  to set and verify the locking mode.
\<close>

theorem initConn_journal_mode_witness:
  "initConn (sqlite0\<lparr>replies := [Runs None, Runs None, Runs (Some ''delete'')]\<rparr>) conn_opts 0 =
     (Err (ErrUnexpectedJournalMode ''delete''), sqlite0)
   \<and> initConn (sqlite0\<lparr>replies := [Runs None, Runs None, Runs (Some ''wal''), Runs None,
                                     Runs (Some ''exclusive'')]\<rparr>) conn_opts 0 =
     (Ok (), sqlite0)"
proof -
  note defs = setSynchronous_def sqlitex_Exec_def engine_step_def next_reply_def
    setPageSize_def sqlite0_def conn_opts_def after_reply_def
  have 1: "initConn (sqlite0\<lparr>replies := [Runs None, Runs None, Runs (Some ''delete'')]\<rparr>) conn_opts 0 =
     (Err (ErrUnexpectedJournalMode ''delete''), sqlite0)"
    using initConn_journal_mode
      [of conn_opts "sqlite0\<lparr>replies := [Runs None, Runs None, Runs (Some ''delete'')]\<rparr>"
          "sqlite0\<lparr>replies := [Runs None, Runs (Some ''delete'')]\<rparr>"
          "sqlite0\<lparr>replies := [Runs (Some ''delete'')]\<rparr>" 0
          "sqlite0\<lparr>replies := [Runs (Some ''delete'')]\<rparr>" "''delete''" "[]"]
    by (simp add: defs)
  have 2: "initConn (sqlite0\<lparr>replies := [Runs None, Runs None, Runs (Some ''wal''), Runs None,
                                     Runs (Some ''exclusive'')]\<rparr>) conn_opts 0 =
     (Ok (), sqlite0)"
    using initConn_journal_mode
      [of conn_opts "sqlite0\<lparr>replies := [Runs None, Runs None, Runs (Some ''wal''), Runs None,
                                     Runs (Some ''exclusive'')]\<rparr>"
          "sqlite0\<lparr>replies := [Runs None, Runs (Some ''wal''), Runs None, Runs (Some ''exclusive'')]\<rparr>"
          "sqlite0\<lparr>replies := [Runs (Some ''wal''), Runs None, Runs (Some ''exclusive'')]\<rparr>" 0
          "sqlite0\<lparr>replies := [Runs (Some ''wal''), Runs None, Runs (Some ''exclusive'')]\<rparr>"
          "''wal''" "[Runs None, Runs (Some ''exclusive'')]"]
    by (simp add: defs initConn_after_journal_mode_def andThen_def setAndVerifyPragma_def
          setAndMaybeVerifyPragma_def execTransientReturningText_def)
  from 1 2 show ?thesis by simp
qed

section \<open>createKey\<close>

lemma new_rowid_Max:
  assumes "ids \<noteq> []"
  shows "new_rowid ids = Max (set ids) + 1"
proof (cases ids)
  case Nil
  with assms show ?thesis by simp
next
  case (Cons a list)
  with Max.set_eq_fold [of a list] show ?thesis
    by (simp add: new_rowid_def)
qed

lemma new_rowid_snoc: "new_rowid (ids @ [new_rowid ids]) = new_rowid ids + 1"
proof (cases "ids = []")
  case True
  then show ?thesis by (simp add: new_rowid_def)
next
  case False
  then have "Max (set (ids @ [new_rowid ids])) = new_rowid ids"
    by (simp add: new_rowid_Max max_def)
  then show ?thesis
    by (simp add: new_rowid_Max)
qed

lemma wrap64_id: "- (2 ^ 63) \<le> x \<Longrightarrow> x < 2 ^ 63 \<Longrightarrow> wrap64 x = x"
  by (simp add: wrap64_def)

lemma sqliteExec_runs:
  assumes "engine_runs (sqliteConn c)" and "\<And>t. q \<noteq> Pragma t"
    and "refuses q (after_reply (sqliteConn c)) = None"
  shows "sqliteExec c q = (Ok (), c\<lparr>sqliteConn := snd (run_stmt q (after_reply (sqliteConn c)))\<rparr>)"
  using assms by (simp add: sqliteExec_def engine_step_runs)

lemma sqliteExec_keys:
  assumes "sqliteExec c q = (r, c')" and "\<And>k len. q \<noteq> InsertKey k len" and "\<And>k. q \<noteq> UpdateAccessed k"
  shows "tbl_keys (sqliteConn c') = tbl_keys (sqliteConn c)"
proof (cases "next_reply (sqliteConn c)")
  case (Pair rep s1)
  then have s1: "tbl_keys s1 = tbl_keys (sqliteConn c)"
    by (auto simp: next_reply_def split: list.splits)
  show ?thesis
  proof (cases rep)
    case (Fails rc)
    with Pair assms(1) s1 show ?thesis
      by (auto simp: sqliteExec_def engine_step_def)
  next
    case (Runs t)
    with Pair assms s1 show ?thesis
      by (cases q)
         (auto simp: sqliteExec_def engine_step_def Let_def refuses_def
               split: prod.splits if_splits)
  qed
qed

lemma createKey_loop_keys:
  assumes "createKey_loop kid len off c = Some y"
  shows "tbl_keys (sqliteConn (snd y)) = tbl_keys (sqliteConn c)"
  using assms
proof (induction rule: createKey_loop.raw_induct [rotated 1, consumes 1])
  case (1 loop kid len off c y)
  show ?case
  proof (cases "off < len")
    case False
    with 1(2) show ?thesis by auto
  next
    case True
    define blobSize where
      "blobSize = (if wrap64 (len - off) > maxBlobSize c then maxBlobSize c else wrap64 (len - off))"
    obtain o1 c1 where e1: "sqliteExec c (InsertZeroblob blobSize) = (o1, c1)"
      by (cases "sqliteExec c (InsertZeroblob blobSize)")
    then have k1: "tbl_keys (sqliteConn c1) = tbl_keys (sqliteConn c)"
      by (rule sqliteExec_keys) simp_all
    obtain o2 c2 where e2: "sqliteExec c1 (InsertValue kid off (last_insert_rowid (sqliteConn c1))) = (o2, c2)"
      by (cases "sqliteExec c1 (InsertValue kid off (last_insert_rowid (sqliteConn c1)))")
    then have k2: "tbl_keys (sqliteConn c2) = tbl_keys (sqliteConn c1)"
      by (rule sqliteExec_keys) simp_all
    from 1(2) True e1 have step1: "(case o1 of
          Ok _ \<Rightarrow> (case o2 of Ok _ \<Rightarrow> loop kid len (wrap64 (off + maxBlobSize c2)) c2
                     | Err e \<Rightarrow> Some (Panic (PanicError e), c2)
                     | Panic p \<Rightarrow> Some (Panic p, c2))
        | Err e \<Rightarrow> Some (Panic (PanicError e), c1)
        | Panic p \<Rightarrow> Some (Panic p, c1)) = Some y"
      using e2 by (simp add: Let_def blobSize_def split: outcome.splits)
    show ?thesis
    proof (cases o1)
      case (Ok u)
      show ?thesis
      proof (cases o2)
        case Ok2: (Ok u2)
        with Ok step1 have "loop kid len (wrap64 (off + maxBlobSize c2)) c2 = Some y" by simp
        then have "tbl_keys (sqliteConn (snd y)) = tbl_keys (sqliteConn c2)" by (rule 1(1))
        with k1 k2 show ?thesis by simp
      next
        case (Err e)
        with Ok step1 k1 k2 show ?thesis by auto
      next
        case (Panic p)
        with Ok step1 k1 k2 show ?thesis by auto
      qed
    next
      case (Err e)
      with step1 k1 show ?thesis by auto
    next
      case (Panic p)
      with step1 k1 show ?thesis by auto
    qed
  qed
qed

lemma stored_bytes_nonneg: "0 \<le> stored_bytes s"
  unfolding stored_bytes_def by (rule sum_list_nonneg) auto

lemma insert_chunk:
  assumes "runs_next 2 (sqliteConn c)"
    and "n \<le> SQLITE_MAX_LENGTH"
    and "stored_bytes (sqliteConn c) + n \<le> max_database_bytes"
    and "\<not> list_ex (\<lambda>r. value_id r = kid \<and> offset_col r = off) (tbl_values (sqliteConn c))"
  shows "\<exists>c1 c2.
      sqliteExec c (InsertZeroblob n) = (Ok (), c1)
      \<and> sqliteExec c1 (InsertValue kid off (last_insert_rowid (sqliteConn c1))) = (Ok (), c2)
      \<and> tbl_keys (sqliteConn c2) = tbl_keys (sqliteConn c)
      \<and> tbl_blobs (sqliteConn c2) =
          tbl_blobs (sqliteConn c) @ [\<lparr>blob_id = new_rowid (blob_ids c), blob = zeroblob n\<rparr>]
      \<and> tbl_values (sqliteConn c2) =
          tbl_values (sqliteConn c) @
            [\<lparr>value_id = kid, offset_col = off, val_blob_id = new_rowid (blob_ids c)\<rparr>]
      \<and> replies (sqliteConn c2) = drop 2 (replies (sqliteConn c))
      \<and> blobs c2 = blobs c \<and> maxBlobSize c2 = maxBlobSize c"
proof -
  from assms have r1: "engine_runs (sqliteConn c)"
    and r2: "engine_runs (after_reply (sqliteConn c))"
    by (simp_all add: numeral_2_eq_2 runs_next_Suc)
  define c1 where "c1 = c\<lparr>sqliteConn := snd (run_stmt (InsertZeroblob n) (after_reply (sqliteConn c)))\<rparr>"
  have "refuses (InsertZeroblob n) (after_reply (sqliteConn c)) = None"
    using assms(2,3) by (simp add: refuses_def stored_bytes_def after_reply_def)
  with r1 have e1: "sqliteExec c (InsertZeroblob n) = (Ok (), c1)"
    by (simp add: sqliteExec_runs c1_def)
  have r2': "engine_runs (sqliteConn c1)"
    using r2 by (simp add: c1_def engine_runs_iff Let_def after_reply_def)
  define c2 where "c2 = c1\<lparr>sqliteConn :=
      snd (run_stmt (InsertValue kid off (last_insert_rowid (sqliteConn c1))) (after_reply (sqliteConn c1)))\<rparr>"
  have "refuses (InsertValue kid off (last_insert_rowid (sqliteConn c1)))
          (after_reply (sqliteConn c1)) = None"
    using assms(4) by (simp add: refuses_def c1_def Let_def after_reply_def)
  with r2' have e2:
    "sqliteExec c1 (InsertValue kid off (last_insert_rowid (sqliteConn c1))) = (Ok (), c2)"
    by (simp add: sqliteExec_runs c2_def)
  have "tbl_keys (sqliteConn c2) = tbl_keys (sqliteConn c)"
    and "tbl_blobs (sqliteConn c2) =
          tbl_blobs (sqliteConn c) @ [\<lparr>blob_id = new_rowid (blob_ids c), blob = zeroblob n\<rparr>]"
    and "tbl_values (sqliteConn c2) =
          tbl_values (sqliteConn c) @
            [\<lparr>value_id = kid, offset_col = off, val_blob_id = new_rowid (blob_ids c)\<rparr>]"
    and "replies (sqliteConn c2) = drop 2 (replies (sqliteConn c))"
    and "blobs c2 = blobs c" and "maxBlobSize c2 = maxBlobSize c"
    by (simp_all add: c2_def c1_def Let_def after_reply_def blob_ids_def drop_Suc numeral_2_eq_2 drop_tl)
  with e1 e2 show ?thesis by blast
qed

lemma runs_next_mono:
  assumes "runs_next n s" and "m \<le> n"
  shows "runs_next m s"
proof -
  from assms(2) have "take m (replies s) = take m (take n (replies s))"
    by (simp add: min_def)
  then have "set (take m (replies s)) \<subseteq> set (take n (replies s))"
    by (metis set_take_subset)
  with assms(1) show ?thesis
    by (auto simp: runs_next_def list_all_iff)
qed

lemma runs_next_drop:
  assumes "runs_next (m + n) s" and "replies s' = drop m (replies s)"
  shows "runs_next n s'"
proof -
  have "take n (drop m (replies s)) = drop m (take (m + n) (replies s))"
    by (simp add: drop_take)
  then have "set (take n (replies s')) \<subseteq> set (take (m + n) (replies s))"
    using assms(2) by (metis set_drop_subset)
  with assms(1) show ?thesis
    by (auto simp: runs_next_def list_all_iff)
qed

lemma createKey_loop_runs:
  assumes "0 < maxBlobSize c" and "0 \<le> off" and "len < 2 ^ 63"
    and "len \<le> off + int n * maxBlobSize c"
    and "0 < n \<Longrightarrow> off + (int n - 1) * maxBlobSize c < len"
    and "off + int n * maxBlobSize c < 2 ^ 63"
    and "runs_next (2 * n) (sqliteConn c)"
    and "min (maxBlobSize c) (len - off) \<le> SQLITE_MAX_LENGTH"
    and "stored_bytes (sqliteConn c) + (len - off) \<le> max_database_bytes"
    and "\<forall>r \<in> set (tbl_values (sqliteConn c)). value_id r = kid \<longrightarrow> offset_col r < off"
  shows "\<exists>c'. createKey_loop kid len off c = Some (Ok (), c')
      \<and> tbl_keys (sqliteConn c') = tbl_keys (sqliteConn c)
      \<and> tbl_blobs (sqliteConn c') =
          tbl_blobs (sqliteConn c) @
            map (\<lambda>i. \<lparr>blob_id = new_rowid (blob_ids c) + int i,
                      blob = zeroblob (min (maxBlobSize c) (len - (off + int i * maxBlobSize c)))\<rparr>)
                [0..<n]
      \<and> tbl_values (sqliteConn c') =
          tbl_values (sqliteConn c) @
            map (\<lambda>i. \<lparr>value_id = kid, offset_col = off + int i * maxBlobSize c,
                      val_blob_id = new_rowid (blob_ids c) + int i\<rparr>)
                [0..<n]"
  using assms
proof (induction n arbitrary: off c)
  case 0
  then have "\<not> off < len" by simp
  then have "createKey_loop kid len off c = Some (Ok (), c)"
    by (subst createKey_loop.simps) simp
  then show ?case by simp
next
  case (Suc n)
  let ?mbs = "maxBlobSize c"
  have nn: "0 \<le> int n * ?mbs" using Suc.prems(1) by simp
  from Suc.prems(5) have "off + int n * ?mbs < len" by simp
  with nn have lt: "off < len" by linarith
  with Suc.prems(2,3) have w1: "wrap64 (len - off) = len - off"
    by (intro wrap64_id) linarith+
  from Suc.prems(6) have "off + ?mbs + int n * ?mbs < 2 ^ 63"
    by (simp add: algebra_simps)
  with nn Suc.prems(1,2) have w2: "wrap64 (off + ?mbs) = off + ?mbs"
    by (intro wrap64_id) linarith+
  have size: "(if ?mbs < len - off then ?mbs else len - off) = min ?mbs (len - off)"
    by (simp add: min_def)
  from Suc.prems(7) have "runs_next 2 (sqliteConn c)"
    by (rule runs_next_mono) simp
  moreover note Suc.prems(8)
  moreover from Suc.prems(9)
  have "stored_bytes (sqliteConn c) + min ?mbs (len - off) \<le> max_database_bytes"
    by linarith
  moreover from Suc.prems(10)
  have "\<not> list_ex (\<lambda>r. value_id r = kid \<and> offset_col r = off) (tbl_values (sqliteConn c))"
    by (auto simp: list_ex_iff)
  ultimately
  have "\<exists>c1 c2.
      sqliteExec c (InsertZeroblob (min ?mbs (len - off))) = (Ok (), c1)
      \<and> sqliteExec c1 (InsertValue kid off (last_insert_rowid (sqliteConn c1))) = (Ok (), c2)
      \<and> tbl_keys (sqliteConn c2) = tbl_keys (sqliteConn c)
      \<and> tbl_blobs (sqliteConn c2) =
          tbl_blobs (sqliteConn c) @
            [\<lparr>blob_id = new_rowid (blob_ids c), blob = zeroblob (min ?mbs (len - off))\<rparr>]
      \<and> tbl_values (sqliteConn c2) =
          tbl_values (sqliteConn c) @
            [\<lparr>value_id = kid, offset_col = off, val_blob_id = new_rowid (blob_ids c)\<rparr>]
      \<and> replies (sqliteConn c2) = drop 2 (replies (sqliteConn c))
      \<and> blobs c2 = blobs c \<and> maxBlobSize c2 = maxBlobSize c"
    by (rule insert_chunk)
  then obtain c1 c2 where e1: "sqliteExec c (InsertZeroblob (min ?mbs (len - off))) = (Ok (), c1)"
    and e2: "sqliteExec c1 (InsertValue kid off (last_insert_rowid (sqliteConn c1))) = (Ok (), c2)"
    and k2: "tbl_keys (sqliteConn c2) = tbl_keys (sqliteConn c)"
    and b2: "tbl_blobs (sqliteConn c2) =
          tbl_blobs (sqliteConn c) @
            [\<lparr>blob_id = new_rowid (blob_ids c), blob = zeroblob (min ?mbs (len - off))\<rparr>]"
    and v2: "tbl_values (sqliteConn c2) =
          tbl_values (sqliteConn c) @
            [\<lparr>value_id = kid, offset_col = off, val_blob_id = new_rowid (blob_ids c)\<rparr>]"
    and r2: "replies (sqliteConn c2) = drop 2 (replies (sqliteConn c))"
    and m2: "maxBlobSize c2 = ?mbs"
    by blast
  have unfold: "createKey_loop kid len off c = createKey_loop kid len (off + ?mbs) c2"
    by (subst createKey_loop.simps) (simp add: lt w1 w2 size e1 e2 m2 Let_def)
  have ids2: "new_rowid (blob_ids c2) = new_rowid (blob_ids c) + 1"
    by (simp add: blob_ids_def b2 new_rowid_snoc [of "map blob_id (tbl_blobs (sqliteConn c))", unfolded blob_ids_def])
  have run2: "runs_next (2 * n) (sqliteConn c2)"
    using Suc.prems(7) r2 runs_next_drop [of 2 "2 * n" "sqliteConn c" "sqliteConn c2"] by simp
  have max2: "min (maxBlobSize c2) (len - (off + ?mbs)) \<le> SQLITE_MAX_LENGTH"
    using Suc.prems(1,8) m2 by linarith
  have "stored_bytes (sqliteConn c2) =
          stored_bytes (sqliteConn c) + min ?mbs (len - off)"
    using lt Suc.prems(1) by (simp add: stored_bytes_def b2 zeroblob_def)
  with Suc.prems(9)
  have full2: "stored_bytes (sqliteConn c2) + (len - (off + ?mbs)) \<le> max_database_bytes"
    by linarith
  have vals2: "\<forall>r \<in> set (tbl_values (sqliteConn c2)).
                 value_id r = kid \<longrightarrow> offset_col r < off + ?mbs"
    using Suc.prems(1,10) by (auto simp: v2)
  from run2 max2 full2 vals2 Suc.prems(1-6) m2 have "\<exists>c'. createKey_loop kid len (off + ?mbs) c2 = Some (Ok (), c')
      \<and> tbl_keys (sqliteConn c') = tbl_keys (sqliteConn c2)
      \<and> tbl_blobs (sqliteConn c') =
          tbl_blobs (sqliteConn c2) @
            map (\<lambda>i. \<lparr>blob_id = new_rowid (blob_ids c2) + int i,
                      blob = zeroblob (min (maxBlobSize c2) (len - (off + ?mbs + int i * maxBlobSize c2)))\<rparr>)
                [0..<n]
      \<and> tbl_values (sqliteConn c') =
          tbl_values (sqliteConn c2) @
            map (\<lambda>i. \<lparr>value_id = kid, offset_col = off + ?mbs + int i * maxBlobSize c2,
                      val_blob_id = new_rowid (blob_ids c2) + int i\<rparr>)
                [0..<n]"
    by (intro Suc.IH) (simp_all add: algebra_simps)
  then obtain c' where l: "createKey_loop kid len (off + ?mbs) c2 = Some (Ok (), c')"
    and k: "tbl_keys (sqliteConn c') = tbl_keys (sqliteConn c2)"
    and b: "tbl_blobs (sqliteConn c') =
          tbl_blobs (sqliteConn c2) @
            map (\<lambda>i. \<lparr>blob_id = new_rowid (blob_ids c2) + int i,
                      blob = zeroblob (min (maxBlobSize c2) (len - (off + ?mbs + int i * maxBlobSize c2)))\<rparr>)
                [0..<n]"
    and v: "tbl_values (sqliteConn c') =
          tbl_values (sqliteConn c2) @
            map (\<lambda>i. \<lparr>value_id = kid, offset_col = off + ?mbs + int i * maxBlobSize c2,
                      val_blob_id = new_rowid (blob_ids c2) + int i\<rparr>)
                [0..<n]"
    by blast
  have "createKey_loop kid len off c = Some (Ok (), c')"
    using unfold l by simp
  moreover have "tbl_keys (sqliteConn c') = tbl_keys (sqliteConn c)"
    using k k2 by simp
  moreover have "tbl_blobs (sqliteConn c') =
          tbl_blobs (sqliteConn c) @
            map (\<lambda>i. \<lparr>blob_id = new_rowid (blob_ids c) + int i,
                      blob = zeroblob (min ?mbs (len - (off + int i * ?mbs)))\<rparr>)
                [0..<Suc n]"
    unfolding b b2 ids2 m2 map_upt_Suc
    by (simp add: algebra_simps)
  moreover have "tbl_values (sqliteConn c') =
          tbl_values (sqliteConn c) @
            map (\<lambda>i. \<lparr>value_id = kid, offset_col = off + int i * ?mbs,
                      val_blob_id = new_rowid (blob_ids c) + int i\<rparr>)
                [0..<Suc n]"
    unfolding v v2 ids2 m2 map_upt_Suc
    by (simp add: algebra_simps)
  ultimately show ?case by blast
qed

lemma openKey_fails:
  "replies (sqliteConn c) = Fails rc # rs \<Longrightarrow> openKey c k = (Err (SqliteError rc), replied c)"
  by (simp add: openKey_def sqliteQueryRow_fails)

lemma openKey_one:
  assumes "engine_runs (sqliteConn c)" and "keys_named k c = [r]"
  shows "openKey c k = (Ok \<lparr>cols_id = key_id r, cols_length = length_col r\<rparr>, replied c)"
  using assms
  by (simp add: openKey_def sqliteQueryRow_def sqliteQuery_SelectKey ColumnInt64_def)

lemma openKey_many:
  assumes "engine_runs (sqliteConn c)" and "keys_named k c = r1 # r2 # rs"
  shows "openKey c k = (Panic (PanicString ''got more than one row''), replied c)"
  using assms
  by (simp add: openKey_def sqliteQueryRow_def sqliteQuery_SelectKey ColumnInt64_def)

lemma openKey_Ok:
  assumes "openKey c k = (Ok cols, c')"
  obtains r where "keys_named k c = [r]" and "cols_id cols = key_id r" and "c' = replied c"
    and "engine_runs (sqliteConn c)"
proof (cases "engine_runs (sqliteConn c)")
  case False
  then obtain rc rs where "replies (sqliteConn c) = Fails rc # rs"
    by (auto simp: engine_runs_iff)
  with assms show ?thesis by (simp add: openKey_fails)
next
  case True
  show ?thesis
  proof (cases "keys_named k c")
    case Nil
    with True assms show ?thesis by (simp add: openKey_none)
  next
    case (Cons r1 rest)
    show ?thesis
    proof (cases rest)
      case Nil
      with Cons True assms that [of r1] show ?thesis by (auto simp: openKey_one)
    next
      case (Cons r2 rs)
      with \<open>keys_named k c = r1 # rest\<close> True assms show ?thesis by (simp add: openKey_many)
    qed
  qed
qed

lemma openKey_NotFound:
  assumes "openKey c k = (Err ErrNotFound, c')"
  shows "keys_named k c = [] \<and> c' = replied c \<and> engine_runs (sqliteConn c)"
proof (cases "engine_runs (sqliteConn c)")
  case False
  then obtain rc rs where "replies (sqliteConn c) = Fails rc # rs"
    by (auto simp: engine_runs_iff)
  with assms show ?thesis by (simp add: openKey_fails)
next
  case True
  show ?thesis
  proof (cases "keys_named k c")
    case Nil
    with True assms show ?thesis by (simp add: openKey_none)
  next
    case (Cons r1 rest)
    show ?thesis
    proof (cases rest)
      case Nil
      with Cons True assms show ?thesis by (simp add: openKey_one)
    next
      case (Cons r2 rs)
      with \<open>keys_named k c = r1 # rest\<close> True assms show ?thesis by (simp add: openKey_many)
    qed
  qed
qed

lemma insert_key_runs:
  assumes "engine_runs (sqliteConn c)" and "keys_named k c = []"
  shows "sqliteQueryMustOneRow c (InsertKey k len) (\<lambda>r (c'', kid). (Ok (), c'', ColumnInt64 r 0)) 0 =
           (Ok (), key_inserted c k len, new_rowid (map key_id (tbl_keys (sqliteConn c))))"
proof -
  from assms(2) have "refuses (InsertKey k len) (after_reply (sqliteConn c)) = None"
    by (simp add: refuses_def keys_named_def after_reply_def list_ex_iff filter_empty_conv)
  with assms(1) show ?thesis
    by (simp add: sqliteQueryMustOneRow_def sqliteQuery_def engine_step_runs Let_def
          ColumnInt64_def key_inserted_def after_reply_def)
qed

lemma insert_key_fails:
  assumes "replies (sqliteConn c) = Fails rc # rs"
  shows "sqliteQueryMustOneRow c (InsertKey k len) (\<lambda>r (c'', kid). (Ok (), c'', ColumnInt64 r 0)) 0 =
           (Err (SqliteError rc), replied c, 0)"
  using assms
  by (simp add: sqliteQueryMustOneRow_def sqliteQuery_fails)

lemma replied_twice:
  "sqliteConn (replied c) = after_reply (sqliteConn c)"
  "blobs (replied c) = blobs c" "maxBlobSize (replied c) = maxBlobSize c"
  "tbl_keys (after_reply s) = tbl_keys s" "tbl_blobs (after_reply s) = tbl_blobs s"
  "tbl_values (after_reply s) = tbl_values s" "keys_defaults (after_reply s) = keys_defaults s"
  by (simp_all add: replied_def after_reply_def)

lemma createKey_absent_no_chunks:
  assumes "keys_named k c = []" and "Length create \<le> 0" and "runs_next 2 (sqliteConn c)"
  shows "createKey c k create =
           Some (Ok (new_rowid (map key_id (tbl_keys (sqliteConn c)))),
                 key_inserted (replied c) k (Length create))"
proof -
  from assms(3) have r1: "engine_runs (sqliteConn c)"
    and r2: "engine_runs (sqliteConn (replied c))"
    by (simp_all add: numeral_2_eq_2 runs_next_Suc replied_twice)
  from r1 assms(1) have o: "openKey c k = (Err ErrNotFound, replied c)"
    by (rule openKey_none)
  have i: "sqliteQueryMustOneRow (replied c) (InsertKey k (Length create))
             (\<lambda>r (c'', kid). (Ok (), c'', ColumnInt64 r 0)) 0 =
           (Ok (), key_inserted (replied c) k (Length create),
            new_rowid (map key_id (tbl_keys (sqliteConn c))))"
    using insert_key_runs [OF r2, of k "Length create"] assms(1)
    by (simp add: replied_twice keys_named_def)
  have l: "createKey_loop kid (Length create) 0 c1 = Some (Ok (), c1)" for kid c1
    using assms(2) by (subst createKey_loop.simps) simp
  from o i l show ?thesis
    by (simp add: createKey_def)
qed

text \<open>
  C10. For a key with no row in \<open>keys\<close> and a length of zero or less, when the engine
  runs the lookup and the insert, \<open>createKey\<close> returns the new \<open>key_id\<close>; one row,
  with the key and the length given, has been added to \<open>keys\<close>, and the tables
  \<open>blobs\<close> and \<open>values\<close> are as before.
\<close>

theorem createKey_nonpositive_length:
  assumes "keys_named k c = []" and "Length create \<le> 0" and "runs_next 2 (sqliteConn c)"
  shows "\<exists>c'. createKey c k create =
                 Some (Ok (new_rowid (map key_id (tbl_keys (sqliteConn c)))), c')
         \<and> tbl_keys (sqliteConn c') =
             tbl_keys (sqliteConn c) @
               [\<lparr>key_id = new_rowid (map key_id (tbl_keys (sqliteConn c))), key = k,
                 length_col = Length create,
                 last_used = fst (keys_defaults (sqliteConn c)),
                 access_count = snd (keys_defaults (sqliteConn c))\<rparr>]
         \<and> tbl_blobs (sqliteConn c') = tbl_blobs (sqliteConn c)
         \<and> tbl_values (sqliteConn c') = tbl_values (sqliteConn c)"
proof -
  let ?c' = "key_inserted (replied c) k (Length create)"
  from assms have "createKey c k create =
      Some (Ok (new_rowid (map key_id (tbl_keys (sqliteConn c)))), ?c')"
    by (rule createKey_absent_no_chunks)
  moreover have "tbl_keys (sqliteConn ?c') =
             tbl_keys (sqliteConn c) @
               [\<lparr>key_id = new_rowid (map key_id (tbl_keys (sqliteConn c))), key = k,
                 length_col = Length create,
                 last_used = fst (keys_defaults (sqliteConn c)),
                 access_count = snd (keys_defaults (sqliteConn c))\<rparr>]"
    and "tbl_blobs (sqliteConn ?c') = tbl_blobs (sqliteConn c)"
    and "tbl_values (sqliteConn ?c') = tbl_values (sqliteConn c)"
    by (simp_all add: key_inserted_def replied_twice)
  ultimately show ?thesis by blast
qed

lemma createKey_existing:
  assumes "keys_named k c = [r]" and "engine_runs (sqliteConn c)"
  shows "createKey c k create = Some (Ok (key_id r), replied c)"
  using assms by (simp add: createKey_def openKey_one)

lemma createKey_Ok_row:
  assumes "createKey c k create = Some (Ok kid, c1)"
  shows "\<exists>r. keys_named k c1 = [r] \<and> key_id r = kid"
proof (cases "openKey c k")
  case (Pair o1 c')
  show ?thesis
  proof (cases o1)
    case (Ok cols)
    with Pair obtain r where "keys_named k c = [r]" and "cols_id cols = key_id r" and "c' = replied c"
      by (auto elim: openKey_Ok)
    moreover from Pair Ok assms have "kid = cols_id cols" and "c1 = c'"
      by (simp_all add: createKey_def)
    ultimately show ?thesis
      by (simp add: keys_named_def replied_twice)
  next
    case (Panic p)
    with Pair assms show ?thesis by (simp add: createKey_def)
  next
    case (Err e)
    show ?thesis
    proof (cases "e = ErrNotFound")
      case False
      with Pair Err assms show ?thesis by (simp add: createKey_def)
    next
      case True
      with Pair Err have none: "keys_named k c = []" and c': "c' = replied c"
        using openKey_NotFound [of c k c'] by simp_all
      show ?thesis
      proof (cases "engine_runs (sqliteConn c')")
        case False
        then obtain rc rs where "replies (sqliteConn c') = Fails rc # rs"
          by (auto simp: engine_runs_iff)
        with Pair Err True assms show ?thesis
          by (simp add: createKey_def insert_key_fails)
      next
        case runs: True
        let ?kid = "new_rowid (map key_id (tbl_keys (sqliteConn c')))"
        let ?c1 = "key_inserted c' k (Length create)"
        from none c' have "keys_named k c' = []"
          by (simp add: keys_named_def replied_twice)
        with Pair Err True assms insert_key_runs [OF runs, of k "Length create"]
        have loop: "(case createKey_loop ?kid (Length create) 0 ?c1 of
                     None \<Rightarrow> None
                   | Some (Ok _, c2) \<Rightarrow> Some (Ok ?kid, c2)
                   | Some (Err e', c2) \<Rightarrow> Some (Err e', c2)
                   | Some (Panic p, c2) \<Rightarrow> Some (Panic p, c2)) = Some (Ok kid, c1)"
          by (simp add: createKey_def)
        then obtain y where y: "createKey_loop ?kid (Length create) 0 ?c1 = Some y"
          by (cases "createKey_loop ?kid (Length create) 0 ?c1") auto
        with loop have "kid = ?kid" and "snd y = c1"
          by (auto split: prod.splits outcome.splits)
        moreover from y have "tbl_keys (sqliteConn (snd y)) = tbl_keys (sqliteConn ?c1)"
          by (rule createKey_loop_keys)
        ultimately show ?thesis
          using none c' by (simp add: keys_named_def key_inserted_def replied_twice)
      qed
    qed
  qed
qed

text \<open>
  C3. Where the row of \<open>keys\<close> for the key exists, \<open>createKey\<close> returns its
  \<open>key_id\<close> and the connection differs only by the answer the engine has given: no
  row is added to \<open>keys\<close>, \<open>blobs\<close> or \<open>values\<close>. And after a call of
  \<open>createKey\<close> that returned a \<open>key_id\<close>, a second call for the same key (whatever
  the length asked for) returns the same \<open>key_id\<close> and adds no row.
\<close>

theorem createKey_idempotent:
  "(keys_named k c = [r] \<and> engine_runs (sqliteConn c) \<longrightarrow>
      createKey c k create = Some (Ok (key_id r), replied c))
   \<and> (createKey c k create = Some (Ok kid, c1) \<and> engine_runs (sqliteConn c1) \<longrightarrow>
      createKey c1 k create' = Some (Ok kid, replied c1))
   \<and> tbl_keys (sqliteConn (replied c1)) = tbl_keys (sqliteConn c1)
   \<and> tbl_blobs (sqliteConn (replied c1)) = tbl_blobs (sqliteConn c1)
   \<and> tbl_values (sqliteConn (replied c1)) = tbl_values (sqliteConn c1)"
proof -
  have a: "createKey c k create = Some (Ok (key_id r), replied c)"
    if "keys_named k c = [r]" and "engine_runs (sqliteConn c)"
    using that by (rule createKey_existing)
  have b: "createKey c1 k create' = Some (Ok kid, replied c1)"
    if first: "createKey c k create = Some (Ok kid, c1)" and runs: "engine_runs (sqliteConn c1)"
  proof -
    from first obtain r1 where "keys_named k c1 = [r1]" and "key_id r1 = kid"
      using createKey_Ok_row by blast
    with runs show ?thesis
      using createKey_existing [of k c1 r1 create'] by simp
  qed
  from a b show ?thesis
    by (simp add: replied_twice)
qed

lemma ceiling_chunks:
  fixes L mbs :: int
  assumes "0 < mbs"
  shows "L \<le> \<lceil>real_of_int L / real_of_int mbs\<rceil> * mbs"
    and "(\<lceil>real_of_int L / real_of_int mbs\<rceil> - 1) * mbs < L"
proof -
  let ?x = "real_of_int L / real_of_int mbs"
  from assms have pos: "0 < real_of_int mbs" by simp
  have "?x \<le> of_int \<lceil>?x\<rceil>" by (rule le_of_int_ceiling)
  then have "real_of_int L \<le> of_int \<lceil>?x\<rceil> * real_of_int mbs"
    by (rule iffD1 [OF pos_divide_le_eq [OF pos]])
  then have "real_of_int L \<le> real_of_int (\<lceil>?x\<rceil> * mbs)" by simp
  then show "L \<le> \<lceil>?x\<rceil> * mbs" by (simp only: of_int_le_iff)
  have "of_int \<lceil>?x\<rceil> - 1 < ?x" by (rule ceiling_correct [THEN conjunct1])
  then have "(of_int \<lceil>?x\<rceil> - 1) * real_of_int mbs < real_of_int L"
    by (rule iffD1 [OF pos_less_divide_eq [OF pos]])
  then have "real_of_int ((\<lceil>?x\<rceil> - 1) * mbs) < real_of_int L" by simp
  then show "(\<lceil>?x\<rceil> - 1) * mbs < L" by (simp only: of_int_less_iff)
qed

lemma ceiling_pos:
  fixes L mbs :: int
  assumes "0 < mbs" and "0 < L"
  shows "0 < \<lceil>real_of_int L / real_of_int mbs\<rceil>"
  using assms by (simp add: ceiling_less_iff)

text \<open>
  C4. For a key with no row in \<open>keys\<close> and a length \<open>L > 0\<close>, with \<open>maxBlobSize\<close>
  an \<open>int64\<close> above zero and \<open>n = \<lceil>L / maxBlobSize\<rceil>\<close>, when the engine runs every
  statement of the call (it gives no failing answer, the largest blob,
  \<open>min maxBlobSize L\<close>, is within its maximum length, the \<open>L\<close> bytes fit in the
  database, and \<open>values\<close> has no row of the new \<open>key_id\<close>), \<open>createKey\<close> returns the
  new \<open>key_id\<close> having added one row to \<open>keys\<close>, and \<open>n\<close> rows to \<open>blobs\<close> and to
  \<open>values\<close>: for each \<open>i < n\<close> a blob of \<open>min maxBlobSize (L - i * maxBlobSize)\<close>
  zero bytes with the next rowid, and the row of \<open>values\<close> with the \<open>key_id\<close>, the
  offset \<open>i * maxBlobSize\<close> and that rowid.
\<close>

theorem createKey_chunks:
  assumes "keys_named k c = []"
    and "0 < Length create" and "0 < maxBlobSize c" and "maxBlobSize c < 2 ^ 63"
    and "n = nat \<lceil>real_of_int (Length create) / real_of_int (maxBlobSize c)\<rceil>"
    and "runs_next (2 + 2 * n) (sqliteConn c)"
    and "min (maxBlobSize c) (Length create) \<le> SQLITE_MAX_LENGTH"
    and "stored_bytes (sqliteConn c) + Length create \<le> max_database_bytes"
    and "values_of (new_rowid (map key_id (tbl_keys (sqliteConn c)))) c = []"
  shows "\<exists>c'. createKey c k create =
                 Some (Ok (new_rowid (map key_id (tbl_keys (sqliteConn c)))), c')
      \<and> tbl_keys (sqliteConn c') =
          tbl_keys (sqliteConn c) @
            [\<lparr>key_id = new_rowid (map key_id (tbl_keys (sqliteConn c))), key = k,
              length_col = Length create,
              last_used = fst (keys_defaults (sqliteConn c)),
              access_count = snd (keys_defaults (sqliteConn c))\<rparr>]
      \<and> tbl_blobs (sqliteConn c') =
          tbl_blobs (sqliteConn c) @
            map (\<lambda>i. \<lparr>blob_id = new_rowid (blob_ids c) + int i,
                      blob = replicate
                               (nat (min (maxBlobSize c) (Length create - int i * maxBlobSize c))) 0\<rparr>)
                [0..<n]
      \<and> tbl_values (sqliteConn c') =
          tbl_values (sqliteConn c) @
            map (\<lambda>i. \<lparr>value_id = new_rowid (map key_id (tbl_keys (sqliteConn c))),
                      offset_col = int i * maxBlobSize c,
                      val_blob_id = new_rowid (blob_ids c) + int i\<rparr>)
                [0..<n]"
proof -
  let ?L = "Length create" and ?mbs = "maxBlobSize c"
  let ?kid = "new_rowid (map key_id (tbl_keys (sqliteConn c)))"
  let ?c1 = "key_inserted (replied c) k ?L"
  from assms(6) have two: "runs_next 2 (sqliteConn c)"
    by (rule runs_next_mono) simp
  then have r1: "engine_runs (sqliteConn c)"
    and r2: "engine_runs (sqliteConn (replied c))"
    by (simp_all add: numeral_2_eq_2 runs_next_Suc replied_twice)
  from r1 assms(1) have o: "openKey c k = (Err ErrNotFound, replied c)"
    by (rule openKey_none)
  have i: "sqliteQueryMustOneRow (replied c) (InsertKey k ?L)
             (\<lambda>r (c'', kid). (Ok (), c'', ColumnInt64 r 0)) 0 = (Ok (), ?c1, ?kid)"
    using insert_key_runs [OF r2, of k ?L] assms(1)
    by (simp add: replied_twice keys_named_def)
  have n: "int n = \<lceil>real_of_int ?L / real_of_int ?mbs\<rceil>"
    using ceiling_pos [OF assms(3,2)] assms(5) by simp
  have up: "?L \<le> int n * ?mbs" and low: "(int n - 1) * ?mbs < ?L"
    using ceiling_chunks [OF assms(3), of ?L] n by simp_all
  have Lmax: "?L \<le> max_database_bytes"
    using assms(8) stored_bytes_nonneg [of "sqliteConn c"] by linarith
  have ovf: "int n * ?mbs < 2 ^ 63"
  proof (cases "?mbs \<le> ?L")
    case True
    with assms(7) have "?mbs \<le> SQLITE_MAX_LENGTH" by simp
    moreover from low have "int n * ?mbs < ?L + ?mbs" by (simp add: algebra_simps)
    ultimately show ?thesis
      using Lmax by (simp add: SQLITE_MAX_LENGTH_def max_database_bytes_def)
  next
    case False
    with low have "(int n - 1) * ?mbs < 1 * ?mbs" by simp
    with assms(3) have "int n - 1 < 1" by (simp only: mult_less_cancel_right_pos)
    moreover from n ceiling_pos [OF assms(3,2)] have "0 < int n" by simp
    ultimately have "int n = 1" by linarith
    with assms(4) show ?thesis by simp
  qed
  have c1: "maxBlobSize ?c1 = ?mbs" "tbl_blobs (sqliteConn ?c1) = tbl_blobs (sqliteConn c)"
    "tbl_values (sqliteConn ?c1) = tbl_values (sqliteConn c)" "blob_ids ?c1 = blob_ids c"
    "replies (sqliteConn ?c1) = drop 2 (replies (sqliteConn c))"
    "stored_bytes (sqliteConn ?c1) = stored_bytes (sqliteConn c)"
    by (simp_all add: key_inserted_def replied_def after_reply_def blob_ids_def drop_Suc
          numeral_2_eq_2 drop_tl stored_bytes_def)
  have runs: "runs_next (2 * n) (sqliteConn ?c1)"
    using assms(6) c1(5) by (rule runs_next_drop)
  have "\<exists>c'. createKey_loop ?kid ?L 0 ?c1 = Some (Ok (), c')
      \<and> tbl_keys (sqliteConn c') = tbl_keys (sqliteConn ?c1)
      \<and> tbl_blobs (sqliteConn c') =
          tbl_blobs (sqliteConn ?c1) @
            map (\<lambda>i. \<lparr>blob_id = new_rowid (blob_ids ?c1) + int i,
                      blob = zeroblob (min (maxBlobSize ?c1) (?L - (0 + int i * maxBlobSize ?c1)))\<rparr>)
                [0..<n]
      \<and> tbl_values (sqliteConn c') =
          tbl_values (sqliteConn ?c1) @
            map (\<lambda>i. \<lparr>value_id = ?kid, offset_col = 0 + int i * maxBlobSize ?c1,
                      val_blob_id = new_rowid (blob_ids ?c1) + int i\<rparr>)
                [0..<n]"
  proof (rule createKey_loop_runs)
    show "0 < maxBlobSize ?c1" using assms(3) c1(1) by simp
    show "(0::int) \<le> 0" by simp
    show "?L \<le> 0 + int n * maxBlobSize ?c1" using up c1(1) by simp
    then show "?L < 2 ^ 63" using ovf c1(1) by simp
    show "0 + (int n - 1) * maxBlobSize ?c1 < ?L" using low c1(1) by simp
    show "0 + int n * maxBlobSize ?c1 < 2 ^ 63" using ovf c1(1) by simp
    show "runs_next (2 * n) (sqliteConn ?c1)" by (rule runs)
    show "min (maxBlobSize ?c1) (?L - 0) \<le> SQLITE_MAX_LENGTH" using assms(7) c1(1) by simp
    show "stored_bytes (sqliteConn ?c1) + (?L - 0) \<le> max_database_bytes"
      using assms(8) c1(6) by simp
    show "\<forall>r \<in> set (tbl_values (sqliteConn ?c1)). value_id r = ?kid \<longrightarrow> offset_col r < 0"
      using assms(9) unfolding c1(3) by (auto simp: values_of_def filter_empty_conv)
  qed
  then obtain c' where l: "createKey_loop ?kid ?L 0 ?c1 = Some (Ok (), c')"
    and k: "tbl_keys (sqliteConn c') = tbl_keys (sqliteConn ?c1)"
    and b: "tbl_blobs (sqliteConn c') =
          tbl_blobs (sqliteConn c) @
            map (\<lambda>i. \<lparr>blob_id = new_rowid (blob_ids c) + int i,
                      blob = zeroblob (min ?mbs (?L - int i * ?mbs))\<rparr>)
                [0..<n]"
    and v: "tbl_values (sqliteConn c') =
          tbl_values (sqliteConn c) @
            map (\<lambda>i. \<lparr>value_id = ?kid, offset_col = int i * ?mbs,
                      val_blob_id = new_rowid (blob_ids c) + int i\<rparr>)
                [0..<n]"
    unfolding c1 by auto
  from o i l have "createKey c k create = Some (Ok ?kid, c')"
    by (simp add: createKey_def)
  moreover from k have "tbl_keys (sqliteConn c') =
          tbl_keys (sqliteConn c) @
            [\<lparr>key_id = ?kid, key = k, length_col = ?L,
              last_used = fst (keys_defaults (sqliteConn c)),
              access_count = snd (keys_defaults (sqliteConn c))\<rparr>]"
    by (simp add: key_inserted_def replied_twice)
  ultimately show ?thesis
    using b v by (auto simp: zeroblob_def)
qed

text \<open>A length of 40 with a \<open>maxBlobSize\<close> of 16: blobs of 16, 16 and 8 bytes.\<close>

theorem createKey_chunks_witness:
  "\<exists>c'. createKey conn0 ''k'' \<lparr>Length = 40\<rparr> = Some (Ok 1, c')
     \<and> tbl_keys (sqliteConn c') =
         [\<lparr>key_id = 1, key = ''k'', length_col = 40, last_used = 0, access_count = 0\<rparr>]
     \<and> tbl_blobs (sqliteConn c') =
         [\<lparr>blob_id = 1, blob = replicate 16 0\<rparr>, \<lparr>blob_id = 2, blob = replicate 16 0\<rparr>,
          \<lparr>blob_id = 3, blob = replicate 8 0\<rparr>]
     \<and> tbl_values (sqliteConn c') =
         [\<lparr>value_id = 1, offset_col = 0, val_blob_id = 1\<rparr>,
          \<lparr>value_id = 1, offset_col = 16, val_blob_id = 2\<rparr>,
          \<lparr>value_id = 1, offset_col = 32, val_blob_id = 3\<rparr>]"
  using createKey_chunks [of "''k''" conn0 "\<lparr>Length = 40\<rparr>" 3]
  by (simp add: keys_named_def conn0_def sqlite0_def runs_next_def new_rowid_def blob_ids_def
        values_of_def stored_bytes_def SQLITE_MAX_LENGTH_def max_database_bytes_def
        upt_rec [of 0] upt_rec [of 1] upt_rec [of 2] numeral_3_eq_3)

text \<open>
  Beyond the engine's maximum length the first insert of a blob is refused and
  \<open>createKey\<close> panics with the engine's error: a length of \<open>2^63 - 1\<close> with a
  \<open>maxBlobSize\<close> of \<open>2^62\<close>.
\<close>

lemma createKey_blob_too_big:
  "\<exists>c'. createKey conn_big ''k'' \<lparr>Length = 2 ^ 63 - 1\<rparr> =
          Some (Panic (PanicError (SqliteError 18)), c')"
  by (simp add: createKey_def openKey_def sqliteQueryRow_def sqliteQueryMustOneRow_def
        sqliteQuery_def sqliteExec_def engine_step_def next_reply_def conn_big_def conn0_def
        sqlite0_def new_rowid_def ColumnInt64_def createKey_loop.simps wrap64_def refuses_def
        SQLITE_MAX_LENGTH_def Let_def)

theorem createKey_nonpositive_length_witness:
  "\<exists>c'. createKey conn1 ''b'' \<lparr>Length = 0\<rparr> = Some (Ok 2, c')
     \<and> tbl_keys (sqliteConn c') =
         [\<lparr>key_id = 1, key = ''a'', length_col = 3, last_used = 10, access_count = 0\<rparr>,
          \<lparr>key_id = 2, key = ''b'', length_col = 0, last_used = 0, access_count = 0\<rparr>]
     \<and> tbl_blobs (sqliteConn c') = [\<lparr>blob_id = 1, blob = [0, 0, 0]\<rparr>]
     \<and> tbl_values (sqliteConn c') = [\<lparr>value_id = 1, offset_col = 0, val_blob_id = 1\<rparr>]"
  using createKey_nonpositive_length [of "''b''" conn1 "\<lparr>Length = 0\<rparr>"]
  by (simp add: keys_named_def conn1_def sqlite1_def sqlite0_def runs_next_def new_rowid_def)

theorem createKey_idempotent_witness:
  "createKey conn0 ''k'' \<lparr>Length = 20\<rparr> = Some (Ok 1, conn_k20)
   \<and> createKey conn_k20 ''k'' \<lparr>Length = 20\<rparr> = Some (Ok 1, conn_k20)"
proof -
  have first: "createKey conn0 ''k'' \<lparr>Length = 20\<rparr> = Some (Ok 1, conn_k20)"
    by (simp add: createKey_def openKey_def sqliteQueryRow_def sqliteQueryMustOneRow_def
          sqliteQuery_def sqliteExec_def engine_step_def next_reply_def conn0_def sqlite0_def
          conn_k20_def new_rowid_def ColumnInt64_def createKey_loop.simps wrap64_def
          zeroblob_def Let_def refuses_def stored_bytes_def SQLITE_MAX_LENGTH_def
          max_database_bytes_def)
  have r: "engine_runs (sqliteConn conn_k20)"
    by (simp add: conn_k20_def conn0_def sqlite0_def engine_runs_def runs_next_def)
  have p: "replied conn_k20 = conn_k20"
    by (simp add: replied_def after_reply_def conn_k20_def conn0_def sqlite0_def)
  from createKey_idempotent
         [of "''k''" conn0 _ "\<lparr>Length = 20\<rparr>" 1 conn_k20 "\<lparr>Length = 20\<rparr>"]
       first r p
  have "createKey conn_k20 ''k'' \<lparr>Length = 20\<rparr> = Some (Ok 1, conn_k20)" by simp
  with first show ?thesis by simp
qed

section \<open>iterBlobs: the map of blob handles\<close>

lemma Upsert_not_replaced:
  "Upsert m k v = (m', False) \<Longrightarrow> set m' = insert (k, v) (set m)"
proof (induction m arbitrary: m')
  case Nil
  then show ?case by auto
next
  case (Cons e m)
  obtain k' v' where e: "e = (k', v')" by (cases e)
  show ?case
  proof (cases "k' = k")
    case True
    with Cons.prems e show ?thesis by simp
  next
    case False
    show ?thesis
    proof (cases "valueKey_less k k'")
      case True
      with Cons.prems e \<open>k' \<noteq> k\<close> show ?thesis by auto
    next
      case less: False
      obtain m1 r1 where u: "Upsert m k v = (m1, r1)" by (cases "Upsert m k v")
      with Cons.prems e False less have "r1 = False" and "m' = (k', v') # m1" by simp_all
      with u Cons.IH [of m1] e show ?thesis by auto
    qed
  qed
qed

lemma valueKey_less_irrefl: "\<not> valueKey_less k k"
  by (simp add: valueKey_less_def)

lemma valueKey_less_trans: "valueKey_less a b \<Longrightarrow> valueKey_less b c \<Longrightarrow> valueKey_less a c"
  by (auto simp: valueKey_less_def)

text \<open>On a map in key order, \<open>Upsert\<close> reports a replacement exactly when the key is there.\<close>

lemma Upsert_replaced_iff:
  assumes "sorted_map m"
  shows "snd (Upsert m k v) \<longleftrightarrow> k \<in> fst ` set m"
  using assms
proof (induction m)
  case Nil
  then show ?case by simp
next
  case (Cons e m)
  obtain k' v' where e: "e = (k', v')" by (cases e)
  from Cons.prems e have sm: "sorted_map m" and above: "\<forall>x \<in> set m. valueKey_less k' (fst x)"
    by (auto simp: sorted_map_def)
  show ?case
  proof (cases "k' = k")
    case True
    with e show ?thesis by simp
  next
    case False
    show ?thesis
    proof (cases "valueKey_less k k'")
      case True
      have "k \<notin> fst ` set m"
      proof
        assume "k \<in> fst ` set m"
        with above have "valueKey_less k' k" by auto
        with True have "valueKey_less k k" by (rule valueKey_less_trans)
        then show False by (simp add: valueKey_less_irrefl)
      qed
      with True False e show ?thesis by auto
    next
      case less: False
      with False e Cons.IH [OF sm] show ?thesis
        by (auto split: prod.splits)
    qed
  qed
qed

lemma openBlob_blobs:
  "openBlob c b w = (r, c') \<Longrightarrow> blobs c' = blobs c"
  by (auto simp: openBlob_def split: prod.splits)

lemma iterBlobs_row_keeps:
  assumes "iterBlobs_row iter v w r (c, more0, u) = (x, c', more', u')"
    and "\<not> panicked x"
  shows "set (blobs c) \<subseteq> set (blobs c')"
proof (cases more0)
  case False
  with assms(1) show ?thesis by (simp add: iterBlobs_row_def)
next
  case True
  obtain o1 c1 where ob: "openBlob c (ColumnInt64 r 1) w = (o1, c1)"
    by (cases "openBlob c (ColumnInt64 r 1) w")
  then have b1: "blobs c1 = blobs c" by (rule openBlob_blobs)
  show ?thesis
  proof (cases o1)
    case (Ok b)
    obtain m' replaced where up: "Upsert (blobs c1) \<lparr>keyId = v, offset = ColumnInt64 r 0\<rparr> b = (m', replaced)"
      by (cases "Upsert (blobs c1) \<lparr>keyId = v, offset = ColumnInt64 r 0\<rparr> b")
    show ?thesis
    proof (cases replaced)
      case True
      with assms(1) \<open>more0\<close> ob Ok up have "x = Panic (PanicKey \<lparr>keyId = v, offset = ColumnInt64 r 0\<rparr>)"
        by (simp add: iterBlobs_row_def Let_def)
      with assms(2) show ?thesis by simp
    next
      case False
      with up have "set m' = insert (\<lparr>keyId = v, offset = ColumnInt64 r 0\<rparr>, b) (set (blobs c1))"
        by (simp add: Upsert_not_replaced)
      moreover from assms(1) \<open>more0\<close> ob Ok up False have "blobs c' = m'"
        by (auto simp: iterBlobs_row_def Let_def split: prod.splits)
      ultimately show ?thesis using b1 by auto
    qed
  next
    case (Err e)
    with assms(1) True ob b1 show ?thesis by (auto simp: iterBlobs_row_def Let_def)
  next
    case (Panic p)
    with assms True ob show ?thesis by (auto simp: iterBlobs_row_def Let_def)
  qed
qed

lemma each_row_keeps:
  assumes "each_row (iterBlobs_row iter v w) rows (c, more0, u) = (x, c', more', u')"
    and "\<not> panicked x"
  shows "set (blobs c) \<subseteq> set (blobs c')"
  using assms
proof (induction rows arbitrary: c more0 u)
  case Nil
  then show ?case by simp
next
  case (Cons r rows)
  obtain x1 c1 m1 u1 where step: "iterBlobs_row iter v w r (c, more0, u) = (x1, c1, m1, u1)"
    by (cases "iterBlobs_row iter v w r (c, more0, u)")
  show ?case
  proof (cases x1)
    case (Ok a)
    with step Cons.prems(1) have "each_row (iterBlobs_row iter v w) rows (c1, m1, u1) = (x, c', more', u')"
      by simp
    then have "set (blobs c1) \<subseteq> set (blobs c')"
      using Cons.prems(2) by (rule Cons.IH)
    moreover have "set (blobs c) \<subseteq> set (blobs c1)"
      using iterBlobs_row_keeps [OF step] Ok by simp
    ultimately show ?thesis by blast
  next
    case (Err e)
    with step Cons.prems(1) have "c' = c1" by simp
    moreover have "set (blobs c) \<subseteq> set (blobs c1)"
      using iterBlobs_row_keeps [OF step] Err by simp
    ultimately show ?thesis by simp
  next
    case (Panic p)
    with step Cons.prems show ?thesis by auto
  qed
qed

text \<open>
  C7. In the result function of the query of \<open>iterBlobs\<close>, when the handle is opened
  and \<open>Upsert\<close> reports that it replaced an entry, the call panics with the key (it
  neither returns an error nor goes on to the callback). So a call of \<open>iterBlobs\<close> that
  does not panic has replaced nothing: every entry of the map is still there, with its
  handle.
\<close>

theorem iterBlobs_never_replaces:
  "(openBlob c (ColumnInt64 r 1) write = (Ok b, c1)
      \<and> Upsert (blobs c1) \<lparr>keyId = valueId, offset = ColumnInt64 r 0\<rparr> b = (m', True) \<longrightarrow>
      iterBlobs_row iter valueId write r (c, True, u) =
        (Panic (PanicKey \<lparr>keyId = valueId, offset = ColumnInt64 r 0\<rparr>), c1\<lparr>blobs := m'\<rparr>, True, u))
   \<and> (iterBlobs c valueId iter write startOffset u = (x, c', u') \<and> \<not> panicked x \<longrightarrow>
      set (blobs c) \<subseteq> set (blobs c'))"
proof (rule conjI; rule impI)
  assume "openBlob c (ColumnInt64 r 1) write = (Ok b, c1)
      \<and> Upsert (blobs c1) \<lparr>keyId = valueId, offset = ColumnInt64 r 0\<rparr> b = (m', True)"
  then show "iterBlobs_row iter valueId write r (c, True, u) =
        (Panic (PanicKey \<lparr>keyId = valueId, offset = ColumnInt64 r 0\<rparr>), c1\<lparr>blobs := m'\<rparr>, True, u)"
    by (simp add: iterBlobs_row_def Let_def)
next
  assume a: "iterBlobs c valueId iter write startOffset u = (x, c', u') \<and> \<not> panicked x"
  let ?it0 = "SeekGE (blobs c) \<lparr>keyId = valueId, offset = wrap64 (startOffset + 1)\<rparr>"
  let ?it = "if Valid (blobs c) ?it0 then Prev ?it0 else Last (blobs c)"
  obtain res1 u1 where cached: "iterBlobs_cached iter valueId (blobs c) ?it True startOffset u = (res1, u1)"
    by (cases "iterBlobs_cached iter valueId (blobs c) ?it True startOffset u")
  show "set (blobs c) \<subseteq> set (blobs c')"
  proof (cases res1)
    case (Inl err)
    with a cached show ?thesis by (simp add: iterBlobs_def Let_def)
  next
    case (Inr ms)
    obtain more1 so1 where ms: "ms = (more1, so1)" by (cases ms)
    obtain q1 s1 where es: "engine_step (sqliteConn c) (SelectValueBlobs valueId so1) = (q1, s1)"
      by (cases "engine_step (sqliteConn c) (SelectValueBlobs valueId so1)")
    show ?thesis
    proof (cases q1)
      case (Inl rc)
      with a cached Inr ms es show ?thesis
        by (auto simp: iterBlobs_def Let_def sqliteQuery_def)
    next
      case rows: (Inr rows)
      obtain x2 c2 m2 u2 where er:
        "each_row (iterBlobs_row iter valueId write) rows (c\<lparr>sqliteConn := s1\<rparr>, more1, u1) = (x2, c2, m2, u2)"
        by (cases "each_row (iterBlobs_row iter valueId write) rows (c\<lparr>sqliteConn := s1\<rparr>, more1, u1)")
      with a cached Inr ms es rows have "x2 = x" and "c2 = c'"
        by (simp_all add: iterBlobs_def Let_def sqliteQuery_def)
      with er have "each_row (iterBlobs_row iter valueId write) rows
                      (c\<lparr>sqliteConn := s1\<rparr>, more1, u1) = (x, c', m2, u2)"
        by simp
      moreover from a have "\<not> panicked x" by simp
      ultimately have "set (blobs (c\<lparr>sqliteConn := s1\<rparr>)) \<subseteq> set (blobs c')"
        by (rule each_row_keeps)
      then show ?thesis by simp
    qed
  qed
qed

text \<open>The definitions that evaluate \<open>iterBlobs\<close> on the examples.\<close>

lemmas iterBlobs_eval =
  iterBlobs_def iterBlobs_row_def iterBlobs_cached.simps SeekGE_def Valid_def Prev_def Next_def
  Last_def Cur_def Value_def valueKey_less_def wrap64_def sqliteQuery_def engine_step_def
  next_reply_def joined_rows_def openBlob_def openSqliteBlob_def find_blob_def ColumnInt64_def
  collect_def conn_first_cached_def conn_second_cached_def conn_k20_def conn0_def sqlite0_def
  handle1_def handle2_def Let_def

text \<open>
  With only the second blob of \<open>k\<close> in the map, the row of that blob makes the result
  function panic; with only the first blob in the map, \<open>iterBlobs\<close> from offset 0
  returns nil and the entry is still in the map.
\<close>

theorem iterBlobs_never_replaces_witness:
  "iterBlobs_row collect 1 False [ColInt 16, ColInt 2] (conn_second_cached, True, []) =
     (Panic (PanicKey \<lparr>keyId = 1, offset = 16\<rparr>), conn_second_cached, True, [])
   \<and> fst (iterBlobs conn_first_cached 1 collect False 0 []) = Ok ()
   \<and> set (blobs conn_first_cached)
        \<subseteq> set (blobs (fst (snd (iterBlobs conn_first_cached 1 collect False 0 []))))"
proof -
  have o: "openBlob conn_second_cached (ColumnInt64 [ColInt 16, ColInt 2] 1) False =
             (Ok handle2, conn_second_cached)"
    by (simp add: iterBlobs_eval)
  have u: "Upsert (blobs conn_second_cached)
             \<lparr>keyId = 1, offset = ColumnInt64 [ColInt 16, ColInt 2] 0\<rparr> handle2 =
             (blobs conn_second_cached, True)"
    by (simp add: iterBlobs_eval)
  have p: "conn_second_cached\<lparr>blobs := blobs conn_second_cached\<rparr> = conn_second_cached"
    by simp
  have ok: "fst (iterBlobs conn_first_cached 1 collect False 0 []) = Ok ()"
    by (simp add: iterBlobs_eval)
  from iterBlobs_never_replaces
         [of conn_second_cached "[ColInt 16, ColInt 2]" False handle2 conn_second_cached 1
             "blobs conn_second_cached" collect "[]"]
       o u p
  have 1: "iterBlobs_row collect 1 False [ColInt 16, ColInt 2] (conn_second_cached, True, []) =
     (Panic (PanicKey \<lparr>keyId = 1, offset = 16\<rparr>), conn_second_cached, True, [])"
    by (simp add: ColumnInt64_def)
  have full: "iterBlobs conn_first_cached 1 collect False 0 [] =
      (Ok (), fst (snd (iterBlobs conn_first_cached 1 collect False 0 [])),
       snd (snd (iterBlobs conn_first_cached 1 collect False 0 [])))"
    using ok by (simp add: prod_eq_iff)
  from iterBlobs_never_replaces
         [of conn_first_cached "[]" False handle1 conn_first_cached 1 "[]" collect "[]" 0 "Ok ()"
             "fst (snd (iterBlobs conn_first_cached 1 collect False 0 []))"
             "snd (snd (iterBlobs conn_first_cached 1 collect False 0 []))"]
       full
  have 2: "set (blobs conn_first_cached)
        \<subseteq> set (blobs (fst (snd (iterBlobs conn_first_cached 1 collect False 0 []))))"
    by simp
  from 1 ok 2 show ?thesis by simp
qed

text \<open>
  With only the second blob of \<open>k\<close> in the map, \<open>iterBlobs\<close> from offset 0 finds no
  handle to start from, queries both rows and panics on the second.
\<close>

lemma iterBlobs_second_cached_panics:
  "fst (iterBlobs conn_second_cached 1 collect False 0 []) =
     Panic (PanicKey \<lparr>keyId = 1, offset = 16\<rparr>)"
  by (simp add: iterBlobs_eval)

section \<open>iterBlobs and the words of the specification\<close>

lemma extents_int64_nth:
  assumes "extents_int64 m" and "i < length m"
  shows "int64 (offset (fst (m ! i)))"
    and "wrap64 (offset (fst (m ! i)) + h_size (snd (m ! i))) =
           offset (fst (m ! i)) + h_size (snd (m ! i))"
    and "offset (fst (m ! i)) + h_size (snd (m ! i)) < 2 ^ 63"
proof -
  from assms have e: "int64 (offset (fst (m ! i))) \<and>
      int64 (offset (fst (m ! i)) + h_size (snd (m ! i)))"
    by (simp add: extents_int64_def list_all_length)
  then show "int64 (offset (fst (m ! i)))" by simp
  from e show "wrap64 (offset (fst (m ! i)) + h_size (snd (m ! i))) =
           offset (fst (m ! i)) + h_size (snd (m ! i))"
    by (intro wrap64_id) (simp_all add: int64_def)
  from e show "offset (fst (m ! i)) + h_size (snd (m ! i)) < 2 ^ 63"
    by (simp add: int64_def)
qed

lemma cached_refines:
  assumes "0 \<le> it" and "extents_int64 m"
  shows "iterBlobs_cached iter v m it True so u =
           fell_through (spec_cached iter v (drop (nat it) m) so u)"
  using assms
proof (induction "length m - nat it" arbitrary: it so u)
  case 0
  then have "\<not> Valid m it" and "drop (nat it) m = []"
    by (simp_all add: Valid_def)
  then show ?case
    by (subst iterBlobs_cached.simps) (simp add: fell_through_def)
next
  case (Suc n)
  then have valid: "Valid m it" and lt: "nat it < length m"
    by (simp_all add: Valid_def)
  then have d: "drop (nat it) m = m ! nat it # drop (nat (Next it)) m"
    using Suc.prems by (simp add: Next_def Cons_nth_drop_Suc nat_add_distrib)
  have n: "n = length m - nat (Next it)" and nn: "0 \<le> Next it"
    using Suc.hyps(2) Suc.prems by (simp_all add: Next_def nat_add_distrib)
  note IH = Suc.hyps(1) [OF n nn Suc.prems(2)]
  note w = extents_int64_nth(2) [OF Suc.prems(2) lt]
  show ?case
  proof (cases "keyId (fst (m ! nat it)) = v")
    case False
    with valid d show ?thesis
      by (subst iterBlobs_cached.simps) (simp add: Cur_def fell_through_def)
  next
    case True
    let ?e = "m ! nat it"
    let ?blobEnd = "offset (fst ?e) + h_size (snd ?e)"
    show ?thesis
    proof (cases "?blobEnd > so")
      case False
      with True valid d IH [of so u] show ?thesis
        by (subst iterBlobs_cached.simps) (simp add: Cur_def Value_def Let_def w)
    next
      case gt: True
      obtain more' err u' where cb: "iter (offset (fst ?e)) (snd ?e) u = ((more', err), u')"
        by (cases "iter (offset (fst ?e)) (snd ?e) u") auto
      show ?thesis
      proof (cases "more' \<and> err = None")
        case True
        with \<open>keyId (fst ?e) = v\<close> gt valid d cb IH [of ?blobEnd u'] show ?thesis
          by (subst iterBlobs_cached.simps) (simp add: Cur_def Value_def Let_def w)
      next
        case False
        with \<open>keyId (fst ?e) = v\<close> gt valid d cb show ?thesis
          by (subst iterBlobs_cached.simps)
             (auto simp: Cur_def Value_def Let_def fell_through_def w)
      qed
    qed
  qed
qed


lemma SeekGE_first_greater:
  assumes "so < 2 ^ 63 - 1" and "- (2 ^ 63) \<le> so"
  shows "SeekGE m \<lparr>keyId = v, offset = wrap64 (so + 1)\<rparr> =
           int (first_greater m \<lparr>keyId = v, offset = so\<rparr>)"
proof -
  from assms have "wrap64 (so + 1) = so + 1"
    by (intro wrap64_id) simp_all
  moreover have "valueKey_less (fst e) \<lparr>keyId = v, offset = so + 1\<rparr> =
                 (\<not> valueKey_less \<lparr>keyId = v, offset = so\<rparr> (fst e))" for e :: "valueKey \<times> blob_handle"
    by (auto simp: valueKey_less_def)
  ultimately show ?thesis
    by (simp add: SeekGE_def first_greater_def)
qed

lemma seek_position:
  "(let it = SeekGE m k in if Valid m it then Prev it else Last m) = SeekGE m k - 1"
proof -
  have "length (takeWhile (\<lambda>e. valueKey_less (fst e) k) m) \<le> length m"
    by (rule length_takeWhile_le)
  then show ?thesis
    by (auto simp: SeekGE_def Valid_def Prev_def Last_def Let_def)
qed

lemma spec_start_position:
  "spec_start m k = int (first_greater m k) - 1"
proof -
  have "first_greater m k \<le> length m"
    unfolding first_greater_def by (rule length_takeWhile_le)
  then show ?thesis
    by (auto simp: spec_start_def)
qed

lemma takeWhile_at:
  assumes "i < length (takeWhile P xs)"
  shows "P (xs ! i)"
proof -
  from assms have "takeWhile P xs ! i \<in> set (takeWhile P xs)" by simp
  then have "P (takeWhile P xs ! i)" by (rule set_takeWhileD [THEN conjunct2])
  with assms show ?thesis by (simp add: takeWhile_nth)
qed

lemma cached_at_max_code:
  assumes "extents_int64 m"
  shows "iterBlobs_cached iter v m (SeekGE m \<lparr>keyId = v, offset = - (2 ^ 63)\<rparr> - 1) True so u =
           (Inr (True, so), u)"
proof (cases "Valid m (SeekGE m \<lparr>keyId = v, offset = - (2 ^ 63)\<rparr> - 1)")
  case False
  then show ?thesis by (subst iterBlobs_cached.simps) simp
next
  case True
  let ?P = "\<lambda>e :: valueKey \<times> blob_handle. valueKey_less (fst e) \<lparr>keyId = v, offset = - (2 ^ 63)\<rparr>"
  let ?i = "nat (SeekGE m \<lparr>keyId = v, offset = - (2 ^ 63)\<rparr> - 1)"
  define n where "n = length (takeWhile ?P m)"
  from True have "0 \<le> int n - 1" and "int n - 1 < int (length m)"
    by (simp_all add: Valid_def SeekGE_def n_def)
  then have "nat (int n - 1) < n" and "nat (int n - 1) < length m"
    by linarith+
  then have i: "?i < length (takeWhile ?P m)" and im: "?i < length m"
    by (simp_all add: SeekGE_def n_def)
  from i have "?P (m ! ?i)" by (rule takeWhile_at)
  moreover from assms im have "int64 (offset (fst (m ! ?i)))"
    by (rule extents_int64_nth(1))
  ultimately have "keyId (fst (m ! ?i)) \<noteq> v"
    by (auto simp: valueKey_less_def int64_def)
  then show ?thesis
    by (subst iterBlobs_cached.simps) (simp add: Cur_def)
qed

lemma cached_at_max_spec:
  assumes "extents_int64 m" and "so = 2 ^ 63 - 1"
    and "0 \<le> spec_start m \<lparr>keyId = v, offset = so\<rparr>"
  shows "spec_cached iter v (drop (nat (spec_start m \<lparr>keyId = v, offset = so\<rparr>)) m) so u =
           (Inr so, u)"
proof -
  let ?k = "\<lparr>keyId = v, offset = so\<rparr>"
  let ?P = "\<lambda>e :: valueKey \<times> blob_handle. \<not> valueKey_less ?k (fst e)"
  let ?fg = "first_greater m ?k"
  from assms(3) have pos: "0 < ?fg" and st: "nat (spec_start m ?k) = ?fg - 1"
    by (simp_all add: spec_start_position)
  have le: "?fg \<le> length m"
    unfolding first_greater_def by (rule length_takeWhile_le)
  with pos have lt: "?fg - 1 < length m" by simp
  then have d: "drop (?fg - 1) m = m ! (?fg - 1) # drop ?fg m"
    using pos Cons_nth_drop_Suc [of "?fg - 1" m] by simp
  have rest: "spec_cached iter v (drop ?fg m) so u = (Inr so, u)"
  proof (cases "?fg < length m")
    case False
    with le show ?thesis by simp
  next
    case True
    then have "\<not> ?P (m ! ?fg)"
      unfolding first_greater_def by (rule nth_length_takeWhile)
    moreover from assms(1) True have "int64 (offset (fst (m ! ?fg)))"
      by (rule extents_int64_nth(1))
    ultimately have "keyId (fst (m ! ?fg)) \<noteq> v"
      using assms(2) by (auto simp: valueKey_less_def int64_def)
    moreover from True have "drop ?fg m = m ! ?fg # drop (Suc ?fg) m"
      by (simp add: Cons_nth_drop_Suc)
    ultimately show ?thesis by simp
  qed
  have "offset (fst (m ! (?fg - 1))) + h_size (snd (m ! (?fg - 1))) \<le> so"
    using extents_int64_nth(3) [OF assms(1) lt] assms(2) by simp
  with rest show ?thesis
    unfolding st d by (simp add: Let_def)
qed

lemma rows_skipped:
  "each_row (iterBlobs_row iter v w) rows (c, False, u) = (Ok (), c, False, u)"
  by (induction rows) (simp_all add: iterBlobs_row_def)

lemma rows_refine:
  "without_more (each_row (iterBlobs_row iter v w) (map encode_row rows) (c, True, u)) =
     spec_rows iter v w rows c u"
proof (induction rows arbitrary: c u)
  case Nil
  then show ?case by (simp add: without_more_def)
next
  case (Cons r rows)
  let ?step = "iterBlobs_row iter v w (encode_row r) (c, True, u)"
  have cols: "ColumnInt64 (encode_row r) 0 = fst r" "ColumnInt64 (encode_row r) (Suc 0) = snd r"
    by (simp_all add: encode_row_def ColumnInt64_def)
  obtain o1 c1 where ob: "openBlob c (snd r) w = (o1, c1)" by (cases "openBlob c (snd r) w")
  show ?case
  proof (cases o1)
    case (Ok h)
    obtain m' replaced where up: "Upsert (blobs c1) \<lparr>keyId = v, offset = fst r\<rparr> h = (m', replaced)"
      by (cases "Upsert (blobs c1) \<lparr>keyId = v, offset = fst r\<rparr> h")
    show ?thesis
    proof (cases replaced)
      case True
      with ob Ok up have "?step =
          (Panic (PanicKey \<lparr>keyId = v, offset = fst r\<rparr>), c1\<lparr>blobs := m'\<rparr>, True, u)"
        by (simp add: iterBlobs_row_def cols)
      with ob Ok up True show ?thesis
        by (simp add: without_more_def)
    next
      case False
      obtain more' err u' where cb: "iter (fst r) h u = ((more', err), u')"
        by (cases "iter (fst r) h u") auto
      with ob Ok up False have step: "?step =
          ((case err of None \<Rightarrow> Ok () | Some e \<Rightarrow> Err e), c1\<lparr>blobs := m'\<rparr>, more', u')"
        by (simp add: iterBlobs_row_def cols)
      show ?thesis
      proof (cases err)
        case (Some e)
        with ob Ok up False cb step show ?thesis
          by (simp add: without_more_def)
      next
        case None
        show ?thesis
        proof (cases more')
          case True
          with ob Ok up False cb None step Cons.IH [of "c1\<lparr>blobs := m'\<rparr>" u'] show ?thesis
            by simp
        next
          case no_more: False
          with ob Ok up False cb None step show ?thesis
            by (simp add: without_more_def rows_skipped)
        qed
      qed
    qed
  next
    case (Err e)
    with ob have "?step = (Err e, c1, True, u)"
      by (simp add: iterBlobs_row_def cols)
    with ob Err show ?thesis
      by (simp add: without_more_def)
  next
    case (Panic p)
    with ob have "?step = (Panic p, c1, True, u)"
      by (simp add: iterBlobs_row_def cols)
    with ob Panic show ?thesis
      by (simp add: without_more_def)
  qed
qed

lemma query_refines:
  "without_more (sqliteQuery c (SelectValueBlobs v so) (iterBlobs_row iter v w) (True, u)) =
     (case next_reply (sqliteConn c) of
        (Fails rc, s') \<Rightarrow> (Err (SqliteError rc), c\<lparr>sqliteConn := s'\<rparr>, u)
      | (Runs t, s') \<Rightarrow>
          spec_rows iter v w (joined_rows s' v so) (c\<lparr>sqliteConn := s'\<rparr>) u)"
proof (cases "next_reply (sqliteConn c)")
  case (Pair rep s')
  show ?thesis
  proof (cases rep)
    case (Fails rc)
    with Pair show ?thesis
      by (simp add: sqliteQuery_def engine_step_def without_more_def)
  next
    case (Runs t)
    have "(\<lambda>(off, b). [ColInt off, ColInt b]) = encode_row"
      by (auto simp: encode_row_def fun_eq_iff)
    with Pair Runs show ?thesis
      by (simp add: sqliteQuery_def engine_step_def rows_refine)
  qed
qed


lemma cached_phase_refines:
  assumes "int64 so" and "extents_int64 m"
  shows "iterBlobs_cached iter v m
           (let it = SeekGE m \<lparr>keyId = v, offset = wrap64 (so + 1)\<rparr>
            in if Valid m it then Prev it else Last m) True so u =
         fell_through
           (let start = spec_start m \<lparr>keyId = v, offset = so\<rparr>
            in if start < 0 then (Inr so, u)
               else spec_cached iter v (drop (nat start) m) so u)"
proof (cases "so < 2 ^ 63 - 1")
  case True
  with assms(1) have "SeekGE m \<lparr>keyId = v, offset = wrap64 (so + 1)\<rparr> =
           int (first_greater m \<lparr>keyId = v, offset = so\<rparr>)"
    by (intro SeekGE_first_greater) (simp_all add: int64_def)
  then have pos: "(let it = SeekGE m \<lparr>keyId = v, offset = wrap64 (so + 1)\<rparr>
            in if Valid m it then Prev it else Last m) = spec_start m \<lparr>keyId = v, offset = so\<rparr>"
    unfolding seek_position spec_start_position by simp
  show ?thesis
  proof (cases "spec_start m \<lparr>keyId = v, offset = so\<rparr> < 0")
    case neg: True
    then have "\<not> Valid m (spec_start m \<lparr>keyId = v, offset = so\<rparr>)"
      by (simp add: Valid_def)
    then have "iterBlobs_cached iter v m (spec_start m \<lparr>keyId = v, offset = so\<rparr>) True so u =
                 (Inr (True, so), u)"
      by (subst iterBlobs_cached.simps) simp
    with neg show ?thesis
      unfolding pos by (simp add: fell_through_def)
  next
    case False
    then have "0 \<le> spec_start m \<lparr>keyId = v, offset = so\<rparr>" by simp
    from cached_refines [OF this assms(2)] False show ?thesis
      unfolding pos by simp
  qed
next
  case False
  with assms(1) have so: "so = 2 ^ 63 - 1" by (simp add: int64_def)
  then have "wrap64 (so + 1) = - (2 ^ 63)" by (simp add: wrap64_def)
  then have "(let it = SeekGE m \<lparr>keyId = v, offset = wrap64 (so + 1)\<rparr>
            in if Valid m it then Prev it else Last m) =
             SeekGE m \<lparr>keyId = v, offset = - (2 ^ 63)\<rparr> - 1"
    unfolding seek_position by simp
  then have code: "iterBlobs_cached iter v m
           (let it = SeekGE m \<lparr>keyId = v, offset = wrap64 (so + 1)\<rparr>
            in if Valid m it then Prev it else Last m) True so u = (Inr (True, so), u)"
    using cached_at_max_code [OF assms(2)] by simp
  show ?thesis
  proof (cases "spec_start m \<lparr>keyId = v, offset = so\<rparr> < 0")
    case True
    with code show ?thesis by (simp add: fell_through_def)
  next
    case False
    then have "0 \<le> spec_start m \<lparr>keyId = v, offset = so\<rparr>" by simp
    from cached_at_max_spec [OF assms(2) so this, of iter u] False code show ?thesis
      by (simp add: fell_through_def)
  qed
qed

text \<open>
  C2. \<open>iterBlobs\<close> does what the specification words. For every \<open>value_id\<close>,
  callback and mode and every \<open>int64\<close> \<open>startOffset\<close>, with the offsets and the
  ends of the handles in the map within \<open>int64\<close>, \<open>iterBlobs\<close> is
  \<open>iterBlobs_spec\<close>: it seeks to the first key strictly greater than
  \<open>(value_id, startOffset)\<close> and steps back one entry (to the last entry where no key
  is greater); while the iterator is valid and on the same \<open>value_id\<close> it invokes
  the callback exactly where \<open>blobEnd = offset + size\<close> is above \<open>startOffset\<close>,
  returns at once where the callback returns \<open>more = false\<close> or an error, and
  otherwise sets \<open>startOffset = blobEnd\<close> and advances; then it queries the rows of
  the \<open>value_id\<close> with \<open>offset + length(blob) > startOffset\<close>, ordered by offset,
  and invokes the callback on each handle it opens. The two sides return the same
  outcome, the same connection and map, and have made the same calls of the callback.
\<close>

theorem iterBlobs_refines_spec:
  assumes "int64 startOffset" and "extents_int64 (blobs c)"
  shows "iterBlobs c valueId iter w startOffset u =
           iterBlobs_spec c valueId iter w startOffset u"
proof -
  let ?spec = "(let start = spec_start (blobs c) \<lparr>keyId = valueId, offset = startOffset\<rparr>
            in if start < 0 then (Inr startOffset, u)
               else spec_cached iter valueId (drop (nat start) (blobs c)) startOffset u)"
  note phase = cached_phase_refines [OF assms, of iter valueId u]
  obtain x u' where sp: "?spec = (x, u')" by (cases ?spec)
  show ?thesis
  proof (cases x)
    case (Inl err)
    with sp phase show ?thesis
      by (simp add: iterBlobs_def iterBlobs_spec_def fell_through_def Let_def)
  next
    case (Inr so')
    obtain r c' more' u'' where q:
      "sqliteQuery c (SelectValueBlobs valueId so') (iterBlobs_row iter valueId w) (True, u') =
         (r, c', more', u'')"
      by (cases "sqliteQuery c (SelectValueBlobs valueId so') (iterBlobs_row iter valueId w) (True, u')")
         auto
    from query_refines [of c valueId so' iter w u'] q
    have "(case next_reply (sqliteConn c) of
        (Fails rc, s') \<Rightarrow> (Err (SqliteError rc), c\<lparr>sqliteConn := s'\<rparr>, u')
      | (Runs t, s') \<Rightarrow>
          spec_rows iter valueId w (joined_rows s' valueId so') (c\<lparr>sqliteConn := s'\<rparr>) u') =
        (r, c', u'')"
      by (simp add: without_more_def)
    with sp Inr phase q show ?thesis
      by (simp add: iterBlobs_def iterBlobs_spec_def fell_through_def Let_def)
  qed
qed

text \<open>
  With the first blob of \<open>k\<close> in the map, from offset 0: the callback is invoked on
  the handle of the map, at offset 0, and on the handle opened for the row of the second
  blob, at offset 16.
\<close>

theorem iterBlobs_refines_spec_witness:
  "int64 0 \<and> extents_int64 (blobs conn_first_cached)
   \<and> iterBlobs conn_first_cached 1 collect False 0 [] =
       iterBlobs_spec conn_first_cached 1 collect False 0 []
   \<and> snd (snd (iterBlobs_spec conn_first_cached 1 collect False 0 [])) = [0, 16]"
proof -
  have h: "int64 0" "extents_int64 (blobs conn_first_cached)"
    by (simp_all add: int64_def extents_int64_def conn_first_cached_def handle1_def)
  have v: "snd (snd (iterBlobs conn_first_cached 1 collect False 0 [])) = [0, 16]"
    by (simp add: iterBlobs_eval Upsert.simps)
  from iterBlobs_refines_spec [OF h, of 1 collect False "[]"] v h show ?thesis
    by simp
qed

end
